theory Spec2Isabelle
  imports Main
begin

section \<open>The process state the package works on\<close>

text \<open>
  Package \<open>logrot\<close> keeps a log file open under a fixed path and reopens it when a signal
  arrives. Everything it does is an effect on process-wide state: files opened through
  \<open>os.OpenFile\<close>, the output of the standard logger of package \<open>log\<close>, the variables
  \<open>os.Stdout\<close> and \<open>os.Stderr\<close>, the package's own registry \<open>files\<close>, the \<open>LogRot\<close>
  objects behind the pointers it hands out, and the goroutines it starts. The model
  passes that state explicitly.

  A \<open>*os.File\<close> returned by \<open>os.OpenFile\<close> is the index of its entry in \<open>os_files\<close>;
  a new file is appended, so a fresh pointer differs from every earlier one. A nil
  \<open>*os.File\<close> is \<open>None\<close>.
\<close>

datatype oflag = O_RDONLY | O_WRONLY | O_RDWR | O_APPEND | O_CREATE | O_EXCL | O_SYNC | O_TRUNC

record os_file =
  f_name :: string
  f_flag :: "oflag set"
  f_perm :: nat
  f_closed :: bool

text \<open>
  What an \<open>io.Writer\<close> handed to \<open>SetOutput\<close>, or the value of \<open>os.Stdout\<close>, points at:
  one of the streams the process started with (by descriptor number), or a \<open>*os.File\<close>
  of this package (possibly nil).
\<close>

datatype writer = StdStream nat | ToFile "nat option"

text \<open>
  The state shared by every variant of the package: what opening a path would fail with
  right now (\<open>None\<close>: it succeeds; an error is its dynamic type and its text), the files
  opened so far, and the output of the standard logger.
\<close>

record proc =
  fs_err :: "string \<Rightarrow> (string \<times> string) option"
  os_files :: "os_file list"
  log_out :: writer

text \<open>The struct \<open>LogRot\<close> of \<^verbatim>\<open>src/unnamed/part_000\<close>. A logger is known by its identity;
  \<open>quit\<close> is the channel made in \<open>rotateOn\<close>, nil in a zero-valued struct.\<close>

record LogRot =
  name :: string
  logFile :: "nat option"
  signal :: nat
  quit :: "nat option"
  loggers :: "nat list"
  captureStdout :: bool
  captureStderr :: bool

text \<open>
  The goroutine started by \<open>rotateOn\<close>, together with the two channels it waits on:
  \<open>sigs\<close> holds the buffered signals (capacity \<open>sigs_cap\<close>), \<open>l_sig\<close> is the signal the
  channel was registered for with \<open>signal.Notify\<close>, \<open>l_rl\<close> the controller it captured.
  \<open>l_running\<close> is false once the goroutine has returned. \<open>l_rotations\<close> counts the calls
  of \<open>rl.rotate()\<close> it has made; the program has no such counter, it is kept to state
  how many rotations happened. The \<open>quit\<close> channel of a controller is identified with
  the index of the goroutine that receives from it.
\<close>

record listener =
  l_rl :: nat
  l_sig :: nat
  sigs :: "nat list"
  l_running :: bool
  l_rotations :: nat

record world = proc +
  files :: "string \<rightharpoonup> nat"
  os_Stdout :: writer
  os_Stderr :: writer
  logger_out :: "nat \<Rightarrow> writer"
  heap :: "LogRot list"
  listeners :: "listener list"

text \<open>How a run of the process ends early: \<open>log.Fatal\<close>/\<open>log.Fatalf\<close> (the message, then
  \<open>os.Exit(1)\<close>), a nil pointer dereference, or a goroutine that blocks for ever.\<close>

datatype abort = Fatal string | NilDeref | Blocked

definition SIGHUP :: nat where
  "SIGHUP = 1"

definition SIGUSR1 :: nat where
  "SIGUSR1 = 10"

definition sigs_cap :: nat where
  \<comment> \<open>\<^verbatim>\<open>sigs := make(chan os.Signal, 1)\<close>\<close>
  "sigs_cap = 1"

definition perm_0644 :: nat where
  \<comment> \<open>the octal literal \<^verbatim>\<open>0644\<close>\<close>
  "perm_0644 = 6 * 64 + 4 * 8 + 4"

definition init_world :: "(string \<Rightarrow> (string \<times> string) option) \<Rightarrow> (nat \<Rightarrow> writer) \<Rightarrow> world" where
  \<comment> \<open>a process before its first call into the package: the standard logger writes to
      standard error, nothing is opened or registered\<close>
  "init_world fs lo =
     \<lparr>fs_err = fs, os_files = [], log_out = StdStream 2,
      files = Map.empty, os_Stdout = StdStream 1, os_Stderr = StdStream 2,
      logger_out = lo, heap = [], listeners = []\<rparr>"

section \<open>Files\<close>

definition os_OpenFile ::
  "string \<Rightarrow> oflag set \<Rightarrow> nat \<Rightarrow> 'a proc_scheme \<Rightarrow> (string \<times> string) + (nat \<times> 'a proc_scheme)" where
  \<comment> \<open>\<open>os.OpenFile(name, flag, perm)\<close>: the error, or a new open file\<close>
  "os_OpenFile nm flag perm w =
     (case fs_err w nm of
        Some err \<Rightarrow> Inl err
      | None \<Rightarrow>
          Inr (length (os_files w),
               w\<lparr>os_files := os_files w @
                    [\<lparr>f_name = nm, f_flag = flag, f_perm = perm, f_closed = False\<rparr>]\<rparr>))"

definition file_Close :: "nat option \<Rightarrow> 'a proc_scheme \<Rightarrow> 'a proc_scheme" where
  \<comment> \<open>\<open>f.Close()\<close> with the error it returns dropped, as every caller does: on nil or on a
      file already closed it returns an error and changes nothing\<close>
  "file_Close f w =
     (case f of
        None \<Rightarrow> w
      | Some h \<Rightarrow>
          if h < length (os_files w)
          then w\<lparr>os_files := (os_files w)[h := (os_files w ! h)\<lparr>f_closed := True\<rparr>]\<rparr>
          else w)"

definition is_open :: "'a proc_scheme \<Rightarrow> nat \<Rightarrow> bool" where
  "is_open w h = (h < length (os_files w) \<and> \<not> f_closed (os_files w ! h))"


definition Sprintf_error :: "string \<times> string \<Rightarrow> string" where
  \<comment> \<open>\<open>fmt.Sprintf("error: ", err)\<close>: the format has no verb, so the operand is reported
      as extra, with its type and its value\<close>
  "Sprintf_error err = ''error: %!(EXTRA '' @ fst err @ ''='' @ snd err @ '')''"

definition mustOpenFileForAppend :: "string \<Rightarrow> world \<Rightarrow> abort + (nat \<times> world)" where
  "mustOpenFileForAppend nm w =
     (case os_OpenFile nm {O_CREATE, O_WRONLY, O_APPEND} perm_0644 w of
        Inl err \<Rightarrow> Inl (Fatal (Sprintf_error err))
      | Inr (f, w1) \<Rightarrow> Inr (f, w1\<lparr>files := (files w1)(nm \<mapsto> f)\<rparr>))"

definition Open :: "string \<Rightarrow> world \<Rightarrow> abort + (nat \<times> world)" where
  "Open nm w =
     (case files w nm of
        None \<Rightarrow> mustOpenFileForAppend nm w
      | Some f \<Rightarrow> Inr (f, w))"

section \<open>The controller\<close>

definition deref :: "nat option \<Rightarrow> world \<Rightarrow> LogRot option" where
  \<comment> \<open>the struct behind a \<open>*LogRot\<close>; \<open>None\<close> for nil (a pointer past the heap does not
      arise in Go and is read the same way)\<close>
  "deref rl w =
     (case rl of
        None \<Rightarrow> None
      | Some p \<Rightarrow> if p < length (heap w) then Some (heap w ! p) else None)"

definition Logger_SetOutput :: "nat \<Rightarrow> writer \<Rightarrow> world \<Rightarrow> world" where
  \<comment> \<open>Modelled from the spec: the implementations of interface \<open>Logger\<close> are the caller's.
      A logger exposes one operation, "set output destination to a given writable
      stream/handle"; it stores the destination and does nothing else.\<close>
  "Logger_SetOutput l d w = w\<lparr>logger_out := (logger_out w)(l := d)\<rparr>"

definition setOutput :: "nat option \<Rightarrow> world \<Rightarrow> abort + world" where
  "setOutput rl w =
     (case deref rl w of
        None \<Rightarrow> Inl NilDeref
      | Some r \<Rightarrow>
          let w1 = w\<lparr>log_out := ToFile (logFile r)\<rparr>;
              w2 = fold (\<lambda>l. Logger_SetOutput l (ToFile (logFile r))) (loggers r) w1;
              w3 = (if captureStdout r then w2\<lparr>os_Stdout := ToFile (logFile r)\<rparr> else w2);
              w4 = (if captureStderr r then w3\<lparr>os_Stderr := ToFile (logFile r)\<rparr> else w3)
          in Inr w4)"

definition quit_send :: "nat option \<Rightarrow> world \<Rightarrow> abort + world" where
  \<comment> \<open>\<^verbatim>\<open>rl.quit <- struct{}{}\<close> on the unbuffered channel: the send completes when the
      goroutine takes it in its \<open>select\<close> and returns; with no goroutine left to receive
      (or on a nil channel) the sender blocks for ever\<close>
  "quit_send q w =
     (case q of
        None \<Rightarrow> Inl Blocked
      | Some i \<Rightarrow>
          if i < length (listeners w) \<and> l_running (listeners w ! i)
          then Inr (w\<lparr>listeners := (listeners w)[i := (listeners w ! i)\<lparr>l_running := False\<rparr>]\<rparr>)
          else Inl Blocked)"

definition Close :: "nat option \<Rightarrow> world \<Rightarrow> abort + world" where
  "Close rl w =
     (case deref rl w of
        None \<Rightarrow> Inr w
      | Some r \<Rightarrow>
          (case logFile r of
             None \<Rightarrow> Inr w
           | Some h \<Rightarrow>
               (case quit_send (quit r) w of
                  Inl e \<Rightarrow> Inl e
                | Inr w1 \<Rightarrow> Inr (file_Close (Some h) w1))))"

definition set_logFile :: "nat \<Rightarrow> nat option \<Rightarrow> world \<Rightarrow> world" where
  \<comment> \<open>the assignment \<^verbatim>\<open>rl.logFile = f\<close>\<close>
  "set_logFile p f w = w\<lparr>heap := (heap w)[p := (heap w ! p)\<lparr>logFile := f\<rparr>]\<rparr>"

definition rotate_rl :: "nat option \<Rightarrow> world \<Rightarrow> abort + world" where
  \<comment> \<open>the method \<open>rotate\<close> (the name \<open>rotate\<close> is taken by a function on lists)\<close>
  "rotate_rl rl w =
     (case rl of
        None \<Rightarrow> Inl NilDeref
      | Some p \<Rightarrow>
          if p < length (heap w) then
            let oldLog = logFile (heap w ! p) in
            (case mustOpenFileForAppend (name (heap w ! p)) w of
               Inl e \<Rightarrow> Inl e
             | Inr (f, w0) \<Rightarrow>
                 (case setOutput rl (set_logFile p (Some f) w0) of
                    Inl e \<Rightarrow> Inl e
                  | Inr w2 \<Rightarrow> Inr (file_Close oldLog w2)))
          else Inl NilDeref)"


definition CaptureStdout :: "nat option \<Rightarrow> world \<Rightarrow> abort + world" where
  "CaptureStdout rl w =
     (case rl of
        None \<Rightarrow> Inl NilDeref
      | Some p \<Rightarrow>
          if p < length (heap w) then
            let w1 = w\<lparr>heap := (heap w)[p := (heap w ! p)\<lparr>captureStdout := True\<rparr>]\<rparr>
            in Inr (w1\<lparr>os_Stdout := ToFile (logFile (heap w1 ! p))\<rparr>)
          else Inl NilDeref)"

definition CaptureStderr :: "nat option \<Rightarrow> world \<Rightarrow> abort + world" where
  "CaptureStderr rl w =
     (case rl of
        None \<Rightarrow> Inl NilDeref
      | Some p \<Rightarrow>
          if p < length (heap w) then
            let w1 = w\<lparr>heap := (heap w)[p := (heap w ! p)\<lparr>captureStderr := True\<rparr>]\<rparr>
            in Inr (w1\<lparr>os_Stderr := ToFile (logFile (heap w1 ! p))\<rparr>)
          else Inl NilDeref)"

definition rotateOn :: "string \<Rightarrow> nat \<Rightarrow> nat list \<Rightarrow> world \<Rightarrow> abort + (nat \<times> world)" where
  \<comment> \<open>returns the new \<open>*LogRot\<close>; \<open>signal.Notify(sigs, sig)\<close> and the \<open>go\<close> statement make
      the listener entry, whose index is also the identity of the \<open>quit\<close> channel\<close>
  "rotateOn nm sig ls w =
     (case mustOpenFileForAppend nm w of
        Inl e \<Rightarrow> Inl e
      | Inr (f, w1) \<Rightarrow>
          let p = length (heap w1);
              q = length (listeners w1);
              w2 = w1\<lparr>heap := heap w1 @
                     [\<lparr>name = nm, logFile = Some f, signal = sig, quit = Some q, loggers = ls,
                       captureStdout = False, captureStderr = False\<rparr>]\<rparr>
          in (case setOutput (Some p) w2 of
                Inl e \<Rightarrow> Inl e
              | Inr w3 \<Rightarrow>
                  Inr (p, w3\<lparr>listeners := listeners w3 @
                         [\<lparr>l_rl = p, l_sig = sig, sigs = [], l_running = True,
                           l_rotations = 0\<rparr>]\<rparr>)))"

definition WriteTo :: "string \<Rightarrow> nat list \<Rightarrow> world \<Rightarrow> abort + (nat \<times> world)" where
  "WriteTo nm ls w = rotateOn nm SIGHUP ls w"

definition WriteAllTo :: "string \<Rightarrow> nat list \<Rightarrow> world \<Rightarrow> abort + (nat \<times> world)" where
  "WriteAllTo nm ls w =
     (case WriteTo nm ls w of
        Inl e \<Rightarrow> Inl e
      | Inr (lr, w1) \<Rightarrow>
          (case CaptureStdout (Some lr) w1 of
             Inl e \<Rightarrow> Inl e
           | Inr w2 \<Rightarrow>
               (case CaptureStderr (Some lr) w2 of
                  Inl e \<Rightarrow> Inl e
                | Inr w3 \<Rightarrow> Inr (lr, w3))))"

section \<open>The listener goroutine\<close>

definition deliver :: "nat \<Rightarrow> world \<Rightarrow> world" where
  \<comment> \<open>the process receives signal \<open>s\<close>: package \<open>os/signal\<close> sends it to every channel
      registered for it with \<open>signal.Notify\<close> and never blocks doing so, so a channel whose
      buffer is full misses the signal\<close>
  "deliver s w =
     w\<lparr>listeners :=
         map (\<lambda>l. if l_sig l = s \<and> length (sigs l) < sigs_cap then l\<lparr>sigs := sigs l @ [s]\<rparr> else l)
           (listeners w)\<rparr>"

definition listener_step :: "nat \<Rightarrow> world \<Rightarrow> abort + world" where
  \<comment> \<open>one turn of the \<open>for\<close>/\<open>select\<close> loop of goroutine \<open>i\<close>: with nothing buffered it
      stays blocked; otherwise it takes the first signal and, if it is the controller's,
      rotates before it looks at its channels again. (The \<open>quit\<close> case is taken inside
      \<open>quit_send\<close>, the send being synchronous. What \<open>log.Printf\<close> writes is not part
      of the state.)\<close>
  "listener_step i w =
     (if i < length (listeners w) \<and> l_running (listeners w ! i) then
        (case sigs (listeners w ! i) of
           [] \<Rightarrow> Inr w
         | s # rest \<Rightarrow>
             let rl = Some (l_rl (listeners w ! i));
                 w1 = w\<lparr>listeners := (listeners w)[i := (listeners w ! i)\<lparr>sigs := rest\<rparr>]\<rparr>
             in (case deref rl w1 of
                   None \<Rightarrow> Inl NilDeref
                 | Some r \<Rightarrow>
                     if s = signal r then
                       (case rotate_rl rl w1 of
                          Inl e \<Rightarrow> Inl e
                        | Inr w2 \<Rightarrow>
                            Inr (w2\<lparr>listeners := (listeners w2)
                                   [i := (listeners w2 ! i)
                                      \<lparr>l_rotations := Suc (l_rotations (listeners w2 ! i))\<rparr>]\<rparr>))
                     else Inr w1))
      else Inr w)"

section \<open>Runs of the process\<close>

text \<open>
  What can happen to the package during a run: the caller calls one of the exported
  functions, a signal arrives, a listener goroutine gets its turn, or the file system
  changes under the process (a path becomes impossible, or possible again, to open).
\<close>

datatype op =
    OpOpen string
  | OpWriteTo string "nat list"
  | OpWriteAllTo string "nat list"
  | OpClose "nat option"
  | OpCaptureStdout "nat option"
  | OpCaptureStderr "nat option"
  | OpSignal nat
  | OpListen nat
  | OpFs string "(string \<times> string) option"

definition discard :: "abort + ('a \<times> world) \<Rightarrow> abort + world" where
  \<comment> \<open>the caller drops the returned pointer\<close>
  "discard r = (case r of Inl e \<Rightarrow> Inl e | Inr (x, w) \<Rightarrow> Inr w)"

fun apply_op :: "op \<Rightarrow> world \<Rightarrow> abort + world" where
  "apply_op (OpOpen nm) w = discard (Open nm w)"
| "apply_op (OpWriteTo nm ls) w = discard (WriteTo nm ls w)"
| "apply_op (OpWriteAllTo nm ls) w = discard (WriteAllTo nm ls w)"
| "apply_op (OpClose rl) w = Close rl w"
| "apply_op (OpCaptureStdout rl) w = CaptureStdout rl w"
| "apply_op (OpCaptureStderr rl) w = CaptureStderr rl w"
| "apply_op (OpSignal s) w = Inr (deliver s w)"
| "apply_op (OpListen i) w = listener_step i w"
| "apply_op (OpFs nm e) w = Inr (w\<lparr>fs_err := (fs_err w)(nm := e)\<rparr>)"

fun run :: "op list \<Rightarrow> world \<Rightarrow> abort + world" where
  "run [] w = Inr w"
| "run (x # xs) w = (case apply_op x w of Inl e \<Rightarrow> Inl e | Inr w1 \<Rightarrow> run xs w1)"

primrec latest :: "string \<Rightarrow> os_file list \<Rightarrow> nat option" where
  \<comment> \<open>the file opened last under a path, among all files opened so far\<close>
  "latest nm [] = None"
| "latest nm (f # fs) =
     (case latest nm fs of
        Some i \<Rightarrow> Some (Suc i)
      | None \<Rightarrow> if f_name f = nm then Some 0 else None)"

section \<open>The earlier variants (\<^verbatim>\<open>src/logrot.go\<close>)\<close>

text \<open>
  \<^verbatim>\<open>src/logrot.go\<close> holds two earlier variants of the package, one rotating on
  \<open>SIGUSR1\<close> and one on \<open>SIGHUP\<close>; apart from the signal, the spelling of the field
  \<open>logFile\<close>/\<open>LogFile\<close> and a \<open>log.Println\<close> they are the same program. They have no
  registry, no loggers, no capture of the standard streams and no \<open>quit\<close> channel: the
  goroutine ranges over \<open>sigs\<close> for ever. Their functions carry the suffix \<open>0\<close>, and the
  controller is passed by value with the state.
\<close>

record LogRot0 =
  name0 :: string
  logFile0 :: "nat option"
  signal0 :: nat

definition Sprint_Error :: "string \<times> string \<Rightarrow> string" where
  \<comment> \<open>\<open>fmt.Sprint("Error: ", err)\<close>: no space is put after a string operand\<close>
  "Sprint_Error err = ''Error: '' @ snd err"

definition mustOpenFileForAppend0 :: "string \<Rightarrow> proc \<Rightarrow> abort + (nat \<times> proc)" where
  "mustOpenFileForAppend0 nm w =
     (case os_OpenFile nm {O_CREATE, O_WRONLY, O_APPEND} perm_0644 w of
        Inl err \<Rightarrow> Inl (Fatal (Sprint_Error err))
      | Inr (f, w1) \<Rightarrow> Inr (f, w1))"

definition rotateOn0 :: "string \<Rightarrow> nat \<Rightarrow> proc \<Rightarrow> abort + (LogRot0 \<times> proc)" where
  "rotateOn0 nm sig w =
     (case mustOpenFileForAppend0 nm w of
        Inl e \<Rightarrow> Inl e
      | Inr (f, w1) \<Rightarrow>
          Inr (\<lparr>name0 = nm, logFile0 = Some f, signal0 = sig\<rparr>, w1\<lparr>log_out := ToFile (Some f)\<rparr>))"

definition on_signal0 :: "nat \<Rightarrow> LogRot0 \<Rightarrow> proc \<Rightarrow> abort + (LogRot0 \<times> proc)" where
  \<comment> \<open>the body of \<^verbatim>\<open>for s := range sigs\<close> for one received signal\<close>
  "on_signal0 s rl w =
     (if s = signal0 rl then
        let oldLog = logFile0 rl in
        (case mustOpenFileForAppend0 (name0 rl) w of
           Inl e \<Rightarrow> Inl e
         | Inr (f, w1) \<Rightarrow>
             Inr (rl\<lparr>logFile0 := Some f\<rparr>, file_Close oldLog (w1\<lparr>log_out := ToFile (Some f)\<rparr>)))
      else Inr (rl, w))"


definition Close0 :: "LogRot0 option \<Rightarrow> proc \<Rightarrow> proc" where
  "Close0 rl w =
     (case rl of
        None \<Rightarrow> w
      | Some r \<Rightarrow> (case logFile0 r of None \<Rightarrow> w | Some h \<Rightarrow> file_Close (Some h) w))"

definition new_file :: "string \<Rightarrow> os_file" where
  \<comment> \<open>the entry \<open>mustOpenFileForAppend\<close> makes for a path\<close>
  "new_file nm = \<lparr>f_name = nm, f_flag = {O_CREATE, O_WRONLY, O_APPEND}, f_perm = perm_0644,
                  f_closed = False\<rparr>"

definition mode_string :: "nat \<Rightarrow> string" where
  \<comment> \<open>the nine permission bits in the notation of \<open>ls -l\<close>, highest bit first\<close>
  "mode_string m =
     map (\<lambda>i. if odd (m div 2 ^ (8 - i)) then ''rwxrwxrwx'' ! i else CHR ''-'') [0..<9]"

section \<open>Notions the properties are stated with\<close>


text \<open>The opened files together with the registry, and the two ways the package changes
  them: opening a path (which registers the new file) and closing a file.\<close>

definition store :: "world \<Rightarrow> os_file list \<times> (string \<rightharpoonup> nat)" where
  "store w = (os_files w, files w)"

definition st_open ::
  "string \<Rightarrow> os_file list \<times> (string \<rightharpoonup> nat) \<Rightarrow> os_file list \<times> (string \<rightharpoonup> nat)" where
  "st_open nm s = (fst s @ [new_file nm], (snd s)(nm \<mapsto> length (fst s)))"

definition st_close ::
  "nat option \<Rightarrow> os_file list \<times> (string \<rightharpoonup> nat) \<Rightarrow> os_file list \<times> (string \<rightharpoonup> nat)" where
  "st_close f s =
     (case f of
        None \<Rightarrow> s
      | Some h \<Rightarrow>
          if h < length (fst s) then ((fst s)[h := (fst s ! h)\<lparr>f_closed := True\<rparr>], snd s) else s)"

definition flags_ok :: "os_file list \<times> (string \<rightharpoonup> nat) \<Rightarrow> bool" where
  "flags_ok s =
     (\<forall>f\<in>set (fst s). f_flag f = {O_CREATE, O_WRONLY, O_APPEND} \<and> f_perm f = perm_0644)"

definition registry_ok :: "os_file list \<times> (string \<rightharpoonup> nat) \<Rightarrow> bool" where
  \<comment> \<open>the registry holds, for every path, the file opened last under it\<close>
  "registry_ok s = (\<forall>nm. snd s nm = latest nm (fst s))"

definition heap_le :: "world \<Rightarrow> world \<Rightarrow> bool" where
  \<comment> \<open>controllers stay where they are, keep their path, and a capture flag once set
      stays set\<close>
  "heap_le w w' =
     (length (heap w) \<le> length (heap w') \<and>
      (\<forall>p<length (heap w).
         name (heap w' ! p) = name (heap w ! p) \<and>
         (captureStdout (heap w ! p) \<longrightarrow> captureStdout (heap w' ! p)) \<and>
         (captureStderr (heap w ! p) \<longrightarrow> captureStderr (heap w' ! p))))"

definition rotations_after :: "op list \<Rightarrow> nat \<Rightarrow> world \<Rightarrow> nat option" where
  \<comment> \<open>how often goroutine \<open>i\<close> has called \<open>rotate\<close> once the run is over\<close>
  "rotations_after ops i w =
     (case run ops w of Inl e \<Rightarrow> None | Inr w' \<Rightarrow> Some (l_rotations (listeners w' ! i)))"

definition backlog :: "nat \<Rightarrow> world \<Rightarrow> nat" where
  \<comment> \<open>the rotations goroutine \<open>i\<close> has made, plus the signals still waiting in its channel\<close>
  "backlog i w = l_rotations (listeners w ! i) + length (sigs (listeners w ! i))"

definition lst_le :: "nat \<Rightarrow> world \<Rightarrow> world \<Rightarrow> bool" where
  \<comment> \<open>goroutine \<open>i\<close> is still there, registered for the same signal, with no larger backlog\<close>
  "lst_le i w w' =
     (i < length (listeners w') \<and> l_sig (listeners w' ! i) = l_sig (listeners w ! i) \<and>
      backlog i w' \<le> backlog i w)"

section \<open>Concrete states\<close>

text \<open>
  A process in which every open succeeds and every logger starts on standard error,
  before and after \<open>WriteTo("app.log", l7)\<close>; and the same process when \<open>app.log\<close>
  cannot be opened.
\<close>

definition app_log :: os_file where
  "app_log = \<lparr>f_name = ''app.log'', f_flag = {O_CREATE, O_WRONLY, O_APPEND},
               f_perm = perm_0644, f_closed = False\<rparr>"

definition w_init :: world where
  "w_init = init_world (\<lambda>nm. None) (\<lambda>l. StdStream 2)"

definition app_ctl :: LogRot where
  "app_ctl = \<lparr>name = ''app.log'', logFile = Some 0, signal = SIGHUP, quit = Some 0,
               loggers = [7], captureStdout = False, captureStderr = False\<rparr>"

definition w_started :: world where
  "w_started =
     \<lparr>fs_err = (\<lambda>nm. None), os_files = [app_log], log_out = ToFile (Some 0),
      files = [''app.log'' \<mapsto> 0], os_Stdout = StdStream 1, os_Stderr = StdStream 2,
      logger_out = (\<lambda>l. if l \<in> set [7] then ToFile (Some 0) else StdStream 2),
      heap = [app_ctl],
      listeners = [\<lparr>l_rl = 0, l_sig = SIGHUP, sigs = [], l_running = True, l_rotations = 0\<rparr>]\<rparr>"

definition w_rotated :: world where
  \<comment> \<open>\<open>w_started\<close> after one rotation\<close>
  "w_rotated =
     \<lparr>fs_err = (\<lambda>nm. None), os_files = [app_log\<lparr>f_closed := True\<rparr>, app_log],
      log_out = ToFile (Some 1),
      files = [''app.log'' \<mapsto> 1], os_Stdout = StdStream 1, os_Stderr = StdStream 2,
      logger_out = (\<lambda>l. if l \<in> set [7] then ToFile (Some 1) else StdStream 2),
      heap = [app_ctl\<lparr>logFile := Some 1\<rparr>],
      listeners = [\<lparr>l_rl = 0, l_sig = SIGHUP, sigs = [], l_running = True, l_rotations = 0\<rparr>]\<rparr>"

definition w_other :: world where
  \<comment> \<open>\<open>w_started\<close> after \<open>Open("other.log")\<close>\<close>
  "w_other =
     w_started\<lparr>os_files := [app_log, new_file ''other.log''],
               files := [''app.log'' \<mapsto> 0, ''other.log'' \<mapsto> 1]\<rparr>"

definition enoent :: "string \<times> string" where
  "enoent = (''*fs.PathError'', ''open app.log: no such file or directory'')"

definition w_bad :: world where
  "w_bad = init_world (\<lambda>nm. if nm = ''app.log'' then Some enoent else None) (\<lambda>l. StdStream 2)"

definition p_init :: proc where
  "p_init = \<lparr>fs_err = (\<lambda>nm. None), os_files = [], log_out = StdStream 2\<rparr>"

definition p_bad :: proc where
  "p_bad = \<lparr>fs_err = (\<lambda>nm. if nm = ''app.log'' then Some enoent else None), os_files = [],
            log_out = StdStream 2\<rparr>"

definition w_pending :: world where
  \<comment> \<open>\<open>w_started\<close> with the standard logger and the loggers put back on standard error\<close>
  "w_pending = w_started\<lparr>log_out := StdStream 2, logger_out := (\<lambda>l. StdStream 2)\<rparr>"

definition w_capout :: world where
  \<comment> \<open>\<open>w_started\<close> after \<open>CaptureStdout\<close>\<close>
  "w_capout = w_started\<lparr>os_Stdout := ToFile (Some 0), heap := [app_ctl\<lparr>captureStdout := True\<rparr>]\<rparr>"

definition w_caperr :: world where
  \<comment> \<open>\<open>w_started\<close> after \<open>CaptureStderr\<close>\<close>
  "w_caperr = w_started\<lparr>os_Stderr := ToFile (Some 0), heap := [app_ctl\<lparr>captureStderr := True\<rparr>]\<rparr>"

definition w_capout_rot :: world where
  \<comment> \<open>\<open>w_capout\<close> after one rotation\<close>
  "w_capout_rot =
     w_rotated\<lparr>os_Stdout := ToFile (Some 1),
               heap := [app_ctl\<lparr>logFile := Some 1, captureStdout := True\<rparr>]\<rparr>"

definition w_caperr_rot :: world where
  \<comment> \<open>\<open>w_caperr\<close> after one rotation\<close>
  "w_caperr_rot =
     w_rotated\<lparr>os_Stderr := ToFile (Some 1),
               heap := [app_ctl\<lparr>logFile := Some 1, captureStderr := True\<rparr>]\<rparr>"

definition w_gone :: world where
  \<comment> \<open>\<open>w_started\<close> once \<open>app.log\<close> can no longer be opened\<close>
  "w_gone = w_started\<lparr>fs_err := (\<lambda>nm. if nm = ''app.log'' then Some enoent else None)\<rparr>"

definition w_closed :: world where
  \<comment> \<open>\<open>w_started\<close> after \<open>Close\<close>\<close>
  "w_closed =
     w_started\<lparr>os_files := [app_log\<lparr>f_closed := True\<rparr>],
               listeners := [\<lparr>l_rl = 0, l_sig = SIGHUP, sigs = [], l_running = False,
                               l_rotations = 0\<rparr>]\<rparr>"

definition app_ctl0 :: LogRot0 where
  "app_ctl0 = \<lparr>name0 = ''app.log'', logFile0 = Some 0, signal0 = SIGUSR1\<rparr>"

definition p_started :: proc where
  \<comment> \<open>\<open>p_init\<close> after \<open>rotateOn0\<close>\<close>
  "p_started = \<lparr>fs_err = (\<lambda>nm. None), os_files = [app_log], log_out = ToFile (Some 0)\<rparr>"

definition p_closed :: proc where
  "p_closed = p_started\<lparr>os_files := [app_log\<lparr>f_closed := True\<rparr>]\<rparr>"


definition w_signalled :: world where
  \<comment> \<open>\<open>w_started\<close> with one \<open>SIGHUP\<close> waiting in the channel\<close>
  "w_signalled =
     w_started\<lparr>listeners := [\<lparr>l_rl = 0, l_sig = SIGHUP, sigs = [SIGHUP], l_running = True,
                                 l_rotations = 0\<rparr>]\<rparr>"

definition w_rotated1 :: world where
  \<comment> \<open>\<open>w_signalled\<close> after the listener has handled that signal\<close>
  "w_rotated1 =
     w_rotated\<lparr>listeners := [\<lparr>l_rl = 0, l_sig = SIGHUP, sigs = [], l_running = True,
                                 l_rotations = 1\<rparr>]\<rparr>"

section \<open>Auxiliary facts\<close>

lemma mustOpen_ok:
  "fs_err w nm = None \<Longrightarrow>
   mustOpenFileForAppend nm w =
     Inr (length (os_files w),
          w\<lparr>os_files := os_files w @
               [\<lparr>f_name = nm, f_flag = {O_CREATE, O_WRONLY, O_APPEND}, f_perm = perm_0644,
                 f_closed = False\<rparr>],
            files := (files w)(nm \<mapsto> length (os_files w))\<rparr>)"
  by (simp add: mustOpenFileForAppend_def os_OpenFile_def)

lemma mustOpen_fail:
  "fs_err w nm = Some err \<Longrightarrow> mustOpenFileForAppend nm w = Inl (Fatal (Sprintf_error err))"
  by (simp add: mustOpenFileForAppend_def os_OpenFile_def)

lemma mustOpen_InrD:
  "mustOpenFileForAppend nm w = Inr (f, w') \<Longrightarrow>
   fs_err w nm = None \<and> f = length (os_files w) \<and>
   w' = w\<lparr>os_files := os_files w @
               [\<lparr>f_name = nm, f_flag = {O_CREATE, O_WRONLY, O_APPEND}, f_perm = perm_0644,
                 f_closed = False\<rparr>],
            files := (files w)(nm \<mapsto> length (os_files w))\<rparr>"
  by (cases "fs_err w nm") (auto simp: mustOpen_ok mustOpen_fail)

lemma fold_Logger_SetOutput:
  "fold (\<lambda>l. Logger_SetOutput l d) ls w =
   w\<lparr>logger_out := (\<lambda>l. if l \<in> set ls then d else logger_out w l)\<rparr>"
proof (induction ls arbitrary: w)
  case Nil
  show ?case by simp
next
  case (Cons a ls)
  have "fold (\<lambda>l. Logger_SetOutput l d) (a # ls) w =
        fold (\<lambda>l. Logger_SetOutput l d) ls (Logger_SetOutput a d w)"
    by simp
  also have "\<dots> = (Logger_SetOutput a d w)
        \<lparr>logger_out := (\<lambda>l. if l \<in> set ls then d else logger_out (Logger_SetOutput a d w) l)\<rparr>"
    by (rule Cons.IH)
  also have "\<dots> = w\<lparr>logger_out := (\<lambda>l. if l \<in> set (a # ls) then d else logger_out w l)\<rparr>"
    by (simp add: Logger_SetOutput_def fun_eq_iff cong: if_cong)
  finally show ?case .
qed

lemma setOutput_ok:
  "p < length (heap w) \<Longrightarrow>
   setOutput (Some p) w =
     Inr (w\<lparr>log_out := ToFile (logFile (heap w ! p)),
            logger_out := (\<lambda>l. if l \<in> set (loggers (heap w ! p))
                                then ToFile (logFile (heap w ! p)) else logger_out w l),
            os_Stdout := (if captureStdout (heap w ! p)
                          then ToFile (logFile (heap w ! p)) else os_Stdout w),
            os_Stderr := (if captureStderr (heap w ! p)
                          then ToFile (logFile (heap w ! p)) else os_Stderr w)\<rparr>)"
  by (simp add: setOutput_def deref_def fold_Logger_SetOutput Let_def cong: if_cong)

lemma setOutput_InrD:
  "setOutput rl w = Inr w' \<Longrightarrow> \<exists>p. rl = Some p \<and> p < length (heap w)"
  by (auto simp: setOutput_def deref_def split: option.splits if_splits)

lemma setOutput_idem: "setOutput rl w = Inr w' \<Longrightarrow> setOutput rl w' = Inr w'"
proof -
  assume a: "setOutput rl w = Inr w'"
  then obtain p where p: "rl = Some p" "p < length (heap w)"
    using setOutput_InrD by blast
  from a p have w': "w' = w\<lparr>log_out := ToFile (logFile (heap w ! p)),
            logger_out := (\<lambda>l. if l \<in> set (loggers (heap w ! p))
                                then ToFile (logFile (heap w ! p)) else logger_out w l),
            os_Stdout := (if captureStdout (heap w ! p)
                          then ToFile (logFile (heap w ! p)) else os_Stdout w),
            os_Stderr := (if captureStderr (heap w ! p)
                          then ToFile (logFile (heap w ! p)) else os_Stderr w)\<rparr>"
    by (simp add: setOutput_ok)
  have h: "heap w' = heap w" by (simp add: w')
  have "p < length (heap w')" using p h by simp
  from setOutput_ok[OF this] show ?thesis
    unfolding p h by (simp add: w' fun_eq_iff)
qed

lemma WriteTo_w_init: "WriteTo ''app.log'' [7] w_init = Inr (0, w_started)"
  by (simp add: WriteTo_def rotateOn_def mustOpen_ok setOutput_ok w_init_def init_world_def
      w_started_def app_log_def app_ctl_def Let_def fun_eq_iff)

lemma setOutput_proj:
  assumes "setOutput rl w = Inr w'"
  shows "os_files w' = os_files w" "files w' = files w" "heap w' = heap w"
    "listeners w' = listeners w" "fs_err w' = fs_err w"
proof -
  from assms obtain p where p: "rl = Some p" "p < length (heap w)"
    using setOutput_InrD by blast
  from assms show "os_files w' = os_files w" "files w' = files w" "heap w' = heap w"
    "listeners w' = listeners w" "fs_err w' = fs_err w"
    unfolding p(1) setOutput_ok[OF p(2)] by auto
qed


lemma rotate_InrD:
  assumes "rotate_rl rl w = Inr w'"
  shows "\<exists>p w0 w2. rl = Some p \<and> p < length (heap w) \<and>
           mustOpenFileForAppend (name (heap w ! p)) w = Inr (length (os_files w), w0) \<and>
           setOutput (Some p) (set_logFile p (Some (length (os_files w))) w0) = Inr w2 \<and>
           w' = file_Close (logFile (heap w ! p)) w2"
proof -
  from assms obtain p where p: "rl = Some p" "p < length (heap w)"
    by (auto simp: rotate_rl_def split: option.splits if_splits)
  from assms p obtain f w0 where o: "mustOpenFileForAppend (name (heap w ! p)) w = Inr (f, w0)"
    by (auto simp: rotate_rl_def Let_def split: sum.splits)
  then have f: "f = length (os_files w)"
    using mustOpen_InrD by blast
  from assms p o obtain w2 where
    s: "setOutput (Some p) (set_logFile p (Some f) w0) = Inr w2"
    and w': "w' = file_Close (logFile (heap w ! p)) w2"
    by (auto simp: rotate_rl_def Let_def split: sum.splits)
  show ?thesis using p o s w' f by blast
qed

lemma file_Close_proj:
  "files (file_Close f w) = files w" "heap (file_Close f w) = heap w"
  "listeners (file_Close f w) = listeners w" "fs_err (file_Close f w) = fs_err w"
  "log_out (file_Close f w) = log_out w" "os_Stdout (file_Close f w) = os_Stdout w"
  "os_Stderr (file_Close f w) = os_Stderr w" "logger_out (file_Close f w) = logger_out w"
  "length (os_files (file_Close f w)) = length (os_files w)"
  by (simp_all add: file_Close_def split: option.splits)

lemma rotate_heap:
  assumes "rotate_rl (Some p) w = Inr w'"
  shows "p < length (heap w) \<and>
         heap w' = (heap w)[p := (heap w ! p)\<lparr>logFile := Some (length (os_files w))\<rparr>]"
proof -
  from rotate_InrD[OF assms] obtain w0 w2 where
    p: "p < length (heap w)"
    and o: "mustOpenFileForAppend (name (heap w ! p)) w = Inr (length (os_files w), w0)"
    and s: "setOutput (Some p) (set_logFile p (Some (length (os_files w))) w0) = Inr w2"
    and w': "w' = file_Close (logFile (heap w ! p)) w2"
    by auto
  have "heap w0 = heap w" using mustOpen_InrD[OF o] by simp
  then have "heap w2 = (heap w)[p := (heap w ! p)\<lparr>logFile := Some (length (os_files w))\<rparr>]"
    using setOutput_proj(3)[OF s] by (simp add: set_logFile_def)
  then show ?thesis using p w' by (simp add: file_Close_proj)
qed

lemma latest_append:
  "latest nm (fs @ [f]) = (if f_name f = nm then Some (length fs) else latest nm fs)"
  by (induction fs) (auto split: option.splits)

lemma latest_list_update:
  "h < length fs \<Longrightarrow> f_name g = f_name (fs ! h) \<Longrightarrow> latest nm (fs[h := g]) = latest nm fs"
proof (induction fs arbitrary: h)
  case Nil
  then show ?case by simp
next
  case (Cons a fs)
  then show ?case by (cases h) (auto split: option.splits)
qed

lemma latest_None: "latest nm fs = None \<Longrightarrow> \<forall>j<length fs. f_name (fs ! j) \<noteq> nm"
proof (induction fs)
  case Nil
  then show ?case by simp
next
  case (Cons a fs)
  then show ?case by (auto split: option.splits if_splits simp: nth_Cons')
qed

lemma latest_Some:
  "latest nm fs = Some i \<Longrightarrow>
   i < length fs \<and> f_name (fs ! i) = nm \<and> (\<forall>j<length fs. i < j \<longrightarrow> f_name (fs ! j) \<noteq> nm)"
proof (induction fs arbitrary: i)
  case Nil
  then show ?case by simp
next
  case (Cons a fs)
  show ?case
  proof (cases "latest nm fs")
    case None
    with Cons.prems have i: "i = 0" "f_name a = nm" by (auto split: if_splits)
    from latest_None[OF None] i show ?thesis by (auto simp: nth_Cons')
  next
    case (Some k)
    with Cons.prems have i: "i = Suc k" by simp
    from Cons.IH[OF Some] i show ?thesis
      by (auto simp: nth_Cons' less_Suc_eq_0_disj)
  qed
qed

lemma mustOpen_new_file:
  "mustOpenFileForAppend nm w = Inr (f, w') \<Longrightarrow>
   f = length (os_files w) \<and> os_files w' = os_files w @ [new_file nm] \<and>
   files w' = (files w)(nm \<mapsto> length (os_files w)) \<and> heap w' = heap w \<and>
   listeners w' = listeners w \<and> fs_err w' = fs_err w"
  by (drule mustOpen_InrD) (simp add: new_file_def)

lemma store_file_Close: "store (file_Close f w) = st_close f (store w)"
  by (simp add: store_def st_close_def file_Close_def split: option.splits)

lemma store_mustOpen:
  "mustOpenFileForAppend nm w = Inr (f, w') \<Longrightarrow> store w' = st_open nm (store w)"
  by (drule mustOpen_new_file) (simp add: store_def st_open_def)

lemma store_setOutput: "setOutput rl w = Inr w' \<Longrightarrow> store w' = store w"
  by (simp add: store_def setOutput_proj)

lemma store_rotate:
  assumes "rotate_rl rl w = Inr w'"
  shows "\<exists>nm f. store w' = st_close f (st_open nm (store w))"
proof -
  from rotate_InrD[OF assms] obtain p w0 w2 where
    o: "mustOpenFileForAppend (name (heap w ! p)) w = Inr (length (os_files w), w0)"
    and s: "setOutput (Some p) (set_logFile p (Some (length (os_files w))) w0) = Inr w2"
    and w': "w' = file_Close (logFile (heap w ! p)) w2"
    by auto
  have "store (set_logFile p (Some (length (os_files w))) w0) = store w0"
    by (simp add: store_def set_logFile_def)
  then have "store w2 = st_open (name (heap w ! p)) (store w)"
    using store_setOutput[OF s] store_mustOpen[OF o] by simp
  then show ?thesis using w' store_file_Close by metis
qed

lemma store_Open:
  "Open nm w = Inr (f, w') \<Longrightarrow> store w' = store w \<or> store w' = st_open nm (store w)"
  by (auto simp: Open_def store_mustOpen split: option.splits)

lemma rotateOn_InrD:
  assumes "rotateOn nm sig ls w = Inr (p, w')"
  shows "\<exists>w1 w3. mustOpenFileForAppend nm w = Inr (length (os_files w), w1) \<and>
           p = length (heap w) \<and>
           setOutput (Some p) (w1\<lparr>heap := heap w1 @
                [\<lparr>name = nm, logFile = Some (length (os_files w)), signal = sig,
                  quit = Some (length (listeners w)), loggers = ls,
                  captureStdout = False, captureStderr = False\<rparr>]\<rparr>) = Inr w3 \<and>
           w' = w3\<lparr>listeners := listeners w3 @
                  [\<lparr>l_rl = p, l_sig = sig, sigs = [], l_running = True, l_rotations = 0\<rparr>]\<rparr>"
proof -
  from assms obtain f w1 where o: "mustOpenFileForAppend nm w = Inr (f, w1)"
    by (auto simp: rotateOn_def split: sum.splits)
  from mustOpen_new_file[OF o] have f: "f = length (os_files w)" "heap w1 = heap w"
    "listeners w1 = listeners w" by auto
  from assms o f show ?thesis
    by (auto simp: rotateOn_def Let_def split: sum.splits)
qed

lemma store_rotateOn:
  assumes "rotateOn nm sig ls w = Inr (p, w')"
  shows "store w' = st_open nm (store w)"
proof -
  from rotateOn_InrD[OF assms] obtain w1 w3 where
    o: "mustOpenFileForAppend nm w = Inr (length (os_files w), w1)"
    and s: "setOutput (Some p) (w1\<lparr>heap := heap w1 @
                [\<lparr>name = nm, logFile = Some (length (os_files w)), signal = sig,
                  quit = Some (length (listeners w)), loggers = ls,
                  captureStdout = False, captureStderr = False\<rparr>]\<rparr>) = Inr w3"
    and w': "w' = w3\<lparr>listeners := listeners w3 @
                  [\<lparr>l_rl = p, l_sig = sig, sigs = [], l_running = True, l_rotations = 0\<rparr>]\<rparr>"
    by blast
  have "store w' = store w3" by (simp add: w' store_def)
  also have "\<dots> = store w1" using store_setOutput[OF s] by (simp add: store_def)
  finally show ?thesis using store_mustOpen[OF o] by simp
qed

lemma store_CaptureStdout: "CaptureStdout rl w = Inr w' \<Longrightarrow> store w' = store w"
  by (auto simp: CaptureStdout_def store_def Let_def split: option.splits if_splits)

lemma store_CaptureStderr: "CaptureStderr rl w = Inr w' \<Longrightarrow> store w' = store w"
  by (auto simp: CaptureStderr_def store_def Let_def split: option.splits if_splits)

lemma store_WriteAllTo:
  "WriteAllTo nm ls w = Inr (p, w') \<Longrightarrow> store w' = st_open nm (store w)"
  by (auto simp: WriteAllTo_def WriteTo_def split: sum.splits
      dest!: store_rotateOn store_CaptureStdout store_CaptureStderr)

lemma store_quit_send: "quit_send q w = Inr w' \<Longrightarrow> store w' = store w"
  by (auto simp: quit_send_def store_def split: option.splits if_splits)

lemma store_Close: "Close rl w = Inr w' \<Longrightarrow> \<exists>f. store w' = st_close f (store w)"
proof -
  assume a: "Close rl w = Inr w'"
  have n: "\<And>v. store v = st_close None (store v)" by (simp add: st_close_def)
  from a consider "w' = w" | h w1 where "quit_send h w = Inr w1" "\<exists>f. w' = file_Close f w1"
    by (auto simp: Close_def split: option.splits sum.splits)
  then show ?thesis
  proof cases
    case 1
    then show ?thesis using n by blast
  next
    case 2
    then show ?thesis using store_quit_send store_file_Close by metis
  qed
qed

lemma store_listener_step:
  assumes "listener_step i w = Inr w'"
  shows "store w' = store w \<or> (\<exists>nm f. store w' = st_close f (st_open nm (store w)))"
proof (cases "w' = w")
  case True
  then show ?thesis by simp
next
  case False
  with assms obtain s rest where r: "i < length (listeners w)" "sigs (listeners w ! i) = s # rest"
    by (auto simp: listener_step_def split: if_splits list.splits)
  define w1 where "w1 = w\<lparr>listeners := (listeners w)[i := (listeners w ! i)\<lparr>sigs := rest\<rparr>]\<rparr>"
  have s1: "store w1 = store w" by (simp add: w1_def store_def)
  from assms r False consider "w' = w1"
    | w2 where "rotate_rl (Some (l_rl (listeners w ! i))) w1 = Inr w2"
        "w' = w2\<lparr>listeners := (listeners w2)
                   [i := (listeners w2 ! i)\<lparr>l_rotations := Suc (l_rotations (listeners w2 ! i))\<rparr>]\<rparr>"
    by (auto simp: listener_step_def Let_def w1_def split: if_splits option.splits sum.splits)
  then show ?thesis
  proof cases
    case 1
    then show ?thesis using s1 by simp
  next
    case 2
    have "store w' = store w2" by (simp add: 2(2) store_def)
    then show ?thesis using store_rotate[OF 2(1)] s1 by auto
  qed
qed

lemma store_apply_op:
  assumes "apply_op x w = Inr w'"
  shows "store w' = store w \<or> (\<exists>nm. store w' = st_open nm (store w)) \<or>
         (\<exists>f. store w' = st_close f (store w)) \<or>
         (\<exists>nm f. store w' = st_close f (st_open nm (store w)))"
proof (cases x)
  case (OpOpen nm)
  with assms show ?thesis
    by (auto simp: discard_def split: sum.splits dest!: store_Open)
next
  case (OpWriteTo nm ls)
  with assms show ?thesis
    by (auto simp: discard_def WriteTo_def split: sum.splits dest!: store_rotateOn)
next
  case (OpWriteAllTo nm ls)
  with assms show ?thesis
    by (auto simp: discard_def split: sum.splits dest!: store_WriteAllTo)
next
  case (OpClose rl)
  with assms show ?thesis using store_Close by auto
next
  case (OpCaptureStdout rl)
  with assms show ?thesis using store_CaptureStdout by auto
next
  case (OpCaptureStderr rl)
  with assms show ?thesis using store_CaptureStderr by auto
next
  case (OpSignal s)
  with assms show ?thesis by (auto simp: deliver_def store_def)
next
  case (OpListen i)
  with assms show ?thesis using store_listener_step by auto
next
  case (OpFs nm e)
  with assms show ?thesis by (auto simp: store_def)
qed

lemma flags_ok_open: "flags_ok s \<Longrightarrow> flags_ok (st_open nm s)"
  by (simp add: flags_ok_def st_open_def new_file_def)

lemma flags_ok_close: "flags_ok s \<Longrightarrow> flags_ok (st_close f s)"
proof (cases f)
  case None
  assume "flags_ok s"
  with None show ?thesis by (simp add: st_close_def)
next
  case (Some h)
  assume a: "flags_ok s"
  show ?thesis
  proof (cases "h < length (fst s)")
    case False
    with a Some show ?thesis by (simp add: st_close_def)
  next
    case True
    have "\<And>g. g \<in> set ((fst s)[h := (fst s ! h)\<lparr>f_closed := True\<rparr>]) \<Longrightarrow>
          f_flag g = {O_CREATE, O_WRONLY, O_APPEND} \<and> f_perm g = perm_0644"
    proof -
      fix g
      assume "g \<in> set ((fst s)[h := (fst s ! h)\<lparr>f_closed := True\<rparr>])"
      then have "g \<in> insert ((fst s ! h)\<lparr>f_closed := True\<rparr>) (set (fst s))"
        using set_update_subset_insert by fastforce
      moreover have "fst s ! h \<in> set (fst s)" using True by simp
      ultimately show "f_flag g = {O_CREATE, O_WRONLY, O_APPEND} \<and> f_perm g = perm_0644"
        using a by (auto simp: flags_ok_def)
    qed
    with Some True show ?thesis by (simp add: st_close_def flags_ok_def)
  qed
qed

lemma registry_ok_open: "registry_ok s \<Longrightarrow> registry_ok (st_open nm s)"
  by (simp add: registry_ok_def st_open_def latest_append new_file_def)

lemma registry_ok_close: "registry_ok s \<Longrightarrow> registry_ok (st_close f s)"
  by (auto simp: registry_ok_def st_close_def latest_list_update split: option.splits)

lemma flags_ok_apply_op: "apply_op x w = Inr w' \<Longrightarrow> flags_ok (store w) \<Longrightarrow> flags_ok (store w')"
  using store_apply_op[of x w w'] by (metis flags_ok_open flags_ok_close)

lemma registry_ok_apply_op:
  "apply_op x w = Inr w' \<Longrightarrow> registry_ok (store w) \<Longrightarrow> registry_ok (store w')"
  using store_apply_op[of x w w'] by (metis registry_ok_open registry_ok_close)

lemma flags_ok_run: "run ops w = Inr w' \<Longrightarrow> flags_ok (store w) \<Longrightarrow> flags_ok (store w')"
proof (induction ops arbitrary: w)
  case Nil
  then show ?case by simp
next
  case (Cons x ops)
  from Cons.prems(1) obtain w1 where 1: "apply_op x w = Inr w1" "run ops w1 = Inr w'"
    by (auto split: sum.splits)
  from Cons.IH[OF 1(2)] flags_ok_apply_op[OF 1(1) Cons.prems(2)] show ?case .
qed

lemma registry_ok_run:
  "run ops w = Inr w' \<Longrightarrow> registry_ok (store w) \<Longrightarrow> registry_ok (store w')"
proof (induction ops arbitrary: w)
  case Nil
  then show ?case by simp
next
  case (Cons x ops)
  from Cons.prems(1) obtain w1 where 1: "apply_op x w = Inr w1" "run ops w1 = Inr w'"
    by (auto split: sum.splits)
  from Cons.IH[OF 1(2)] registry_ok_apply_op[OF 1(1) Cons.prems(2)] show ?case .
qed

lemma store_init: "flags_ok (store (init_world fs lo))" "registry_ok (store (init_world fs lo))"
  by (simp_all add: flags_ok_def registry_ok_def store_def init_world_def)

lemma mode_0644: "mode_string perm_0644 = ''rw-r--r--''"
  by (simp add: mode_string_def perm_0644_def upt_rec)

lemma run_WriteTo_w_init: "run [OpWriteTo ''app.log'' [7]] w_init = Inr w_started"
  by (simp add: WriteTo_w_init discard_def)

lemma rotate_ok:
  assumes "p < length (heap w)" and "fs_err w (name (heap w ! p)) = None"
  shows "rotate_rl (Some p) w =
     Inr (file_Close (logFile (heap w ! p))
       (w\<lparr>os_files := os_files w @ [new_file (name (heap w ! p))],
          files := (files w)(name (heap w ! p) \<mapsto> length (os_files w)),
          heap := (heap w)[p := (heap w ! p)\<lparr>logFile := Some (length (os_files w))\<rparr>],
          log_out := ToFile (Some (length (os_files w))),
          logger_out := (\<lambda>l. if l \<in> set (loggers (heap w ! p))
                              then ToFile (Some (length (os_files w))) else logger_out w l),
          os_Stdout := (if captureStdout (heap w ! p)
                        then ToFile (Some (length (os_files w))) else os_Stdout w),
          os_Stderr := (if captureStderr (heap w ! p)
                        then ToFile (Some (length (os_files w))) else os_Stderr w)\<rparr>))"
  using assms
  by (simp add: rotate_rl_def mustOpen_ok setOutput_ok set_logFile_def new_file_def Let_def
      cong: if_cong)

lemma rotate_fs: "rotate_rl (Some p) w = Inr w' \<Longrightarrow> fs_err w (name (heap w ! p)) = None"
  by (auto dest!: rotate_InrD mustOpen_InrD)

lemma rotate_os_Stdout:
  assumes "rotate_rl (Some p) w = Inr w'" and "captureStdout (heap w ! p)"
  shows "os_Stdout w' = ToFile (Some (length (os_files w)))"
proof -
  from rotate_heap[OF assms(1)] have p: "p < length (heap w)" by simp
  from assms show ?thesis
    unfolding rotate_ok[OF p rotate_fs[OF assms(1)]] by (auto simp: file_Close_proj)
qed

lemma rotate_os_Stderr:
  assumes "rotate_rl (Some p) w = Inr w'" and "captureStderr (heap w ! p)"
  shows "os_Stderr w' = ToFile (Some (length (os_files w)))"
proof -
  from rotate_heap[OF assms(1)] have p: "p < length (heap w)" by simp
  from assms show ?thesis
    unfolding rotate_ok[OF p rotate_fs[OF assms(1)]] by (auto simp: file_Close_proj)
qed

lemma heap_le_refl: "heap w' = heap w \<Longrightarrow> heap_le w w'"
  by (simp add: heap_le_def)

lemma heap_le_trans: "heap_le a b \<Longrightarrow> heap_le b c \<Longrightarrow> heap_le a c"
  by (fastforce simp: heap_le_def)

lemma heap_le_rotate: "rotate_rl rl w = Inr w' \<Longrightarrow> heap_le w w'"
proof -
  assume a: "rotate_rl rl w = Inr w'"
  then obtain p where "rl = Some p" using rotate_InrD by blast
  with a have "p < length (heap w) \<and>
      heap w' = (heap w)[p := (heap w ! p)\<lparr>logFile := Some (length (os_files w))\<rparr>]"
    using rotate_heap by blast
  then show ?thesis by (auto simp: heap_le_def nth_list_update)
qed

lemma heap_le_rotateOn: "rotateOn nm sig ls w = Inr (p, w') \<Longrightarrow> heap_le w w'"
proof -
  assume a: "rotateOn nm sig ls w = Inr (p, w')"
  from rotateOn_InrD[OF a] obtain w1 w3 where
    o: "mustOpenFileForAppend nm w = Inr (length (os_files w), w1)"
    and s: "setOutput (Some p) (w1\<lparr>heap := heap w1 @
                [\<lparr>name = nm, logFile = Some (length (os_files w)), signal = sig,
                  quit = Some (length (listeners w)), loggers = ls,
                  captureStdout = False, captureStderr = False\<rparr>]\<rparr>) = Inr w3"
    and w': "w' = w3\<lparr>listeners := listeners w3 @
                  [\<lparr>l_rl = p, l_sig = sig, sigs = [], l_running = True, l_rotations = 0\<rparr>]\<rparr>"
    by blast
  have "heap w' = heap w @ [\<lparr>name = nm, logFile = Some (length (os_files w)), signal = sig,
                  quit = Some (length (listeners w)), loggers = ls,
                  captureStdout = False, captureStderr = False\<rparr>]"
    using setOutput_proj(3)[OF s] mustOpen_new_file[OF o] by (simp add: w')
  then show ?thesis by (simp add: heap_le_def nth_append)
qed

lemma heap_le_CaptureStdout: "CaptureStdout rl w = Inr w' \<Longrightarrow> heap_le w w'"
  by (auto simp: CaptureStdout_def heap_le_def Let_def nth_list_update
      split: option.splits if_splits)

lemma heap_le_CaptureStderr: "CaptureStderr rl w = Inr w' \<Longrightarrow> heap_le w w'"
  by (auto simp: CaptureStderr_def heap_le_def Let_def nth_list_update
      split: option.splits if_splits)

lemma heap_le_Open: "Open nm w = Inr (f, w') \<Longrightarrow> heap_le w w'"
  by (auto simp: Open_def split: option.splits dest!: mustOpen_new_file intro: heap_le_refl)

lemma heap_le_Close: "Close rl w = Inr w' \<Longrightarrow> heap_le w w'"
  by (auto simp: Close_def quit_send_def file_Close_proj
      split: option.splits sum.splits if_splits intro!: heap_le_refl)

lemma heap_le_WriteAllTo: "WriteAllTo nm ls w = Inr (p, w') \<Longrightarrow> heap_le w w'"
  by (auto simp: WriteAllTo_def WriteTo_def split: sum.splits
      dest!: heap_le_rotateOn heap_le_CaptureStdout heap_le_CaptureStderr)
    (blast intro: heap_le_trans)

lemma heap_le_listener_step: "listener_step i w = Inr w' \<Longrightarrow> heap_le w w'"
proof -
  assume a: "listener_step i w = Inr w'"
  define w1 where "w1 = (case sigs (listeners w ! i) of [] \<Rightarrow> w | s # rest \<Rightarrow>
     w\<lparr>listeners := (listeners w)[i := (listeners w ! i)\<lparr>sigs := rest\<rparr>]\<rparr>)"
  have h1: "heap w1 = heap w" by (simp add: w1_def split: list.splits)
  from a consider "heap w' = heap w"
    | rl w2 where "rotate_rl rl w1 = Inr w2" "heap w' = heap w2"
    by (auto simp: listener_step_def Let_def w1_def split: if_splits list.splits option.splits sum.splits)
  then show ?thesis
  proof cases
    case 1
    then show ?thesis by (rule heap_le_refl)
  next
    case 2
    from heap_le_rotate[OF 2(1)] show ?thesis by (simp add: heap_le_def 2(2) h1)
  qed
qed

lemma heap_le_apply_op: "apply_op x w = Inr w' \<Longrightarrow> heap_le w w'"
proof (cases x)
  case (OpOpen nm)
  assume "apply_op x w = Inr w'"
  with OpOpen show ?thesis by (auto simp: discard_def split: sum.splits dest: heap_le_Open)
next
  case (OpWriteTo nm ls)
  assume "apply_op x w = Inr w'"
  with OpWriteTo show ?thesis
    by (auto simp: discard_def WriteTo_def split: sum.splits dest: heap_le_rotateOn)
next
  case (OpWriteAllTo nm ls)
  assume "apply_op x w = Inr w'"
  with OpWriteAllTo show ?thesis
    by (auto simp: discard_def split: sum.splits dest: heap_le_WriteAllTo)
next
  case (OpClose rl)
  assume "apply_op x w = Inr w'"
  with OpClose show ?thesis by (auto dest: heap_le_Close)
next
  case (OpCaptureStdout rl)
  assume "apply_op x w = Inr w'"
  with OpCaptureStdout show ?thesis by (auto dest: heap_le_CaptureStdout)
next
  case (OpCaptureStderr rl)
  assume "apply_op x w = Inr w'"
  with OpCaptureStderr show ?thesis by (auto dest: heap_le_CaptureStderr)
next
  case (OpSignal s)
  assume "apply_op x w = Inr w'"
  with OpSignal show ?thesis by (auto simp: deliver_def intro: heap_le_refl)
next
  case (OpListen i)
  assume "apply_op x w = Inr w'"
  with OpListen show ?thesis by (auto dest: heap_le_listener_step)
next
  case (OpFs nm e)
  assume "apply_op x w = Inr w'"
  with OpFs show ?thesis by (auto intro: heap_le_refl)
qed

lemma heap_le_run: "run ops w = Inr w' \<Longrightarrow> heap_le w w'"
proof (induction ops arbitrary: w)
  case Nil
  then show ?case by (simp add: heap_le_def)
next
  case (Cons x ops)
  from Cons.prems obtain w1 where 1: "apply_op x w = Inr w1" "run ops w1 = Inr w'"
    by (auto split: sum.splits)
  from heap_le_trans[OF heap_le_apply_op[OF 1(1)] Cons.IH[OF 1(2)]] show ?case .
qed

lemma CaptureStdout_InrD:
  "CaptureStdout rl w = Inr w' \<Longrightarrow>
   \<exists>p. rl = Some p \<and> p < length (heap w) \<and>
       w' = w\<lparr>heap := (heap w)[p := (heap w ! p)\<lparr>captureStdout := True\<rparr>],
              os_Stdout := ToFile (logFile (heap w ! p))\<rparr>"
  by (auto simp: CaptureStdout_def Let_def split: option.splits if_splits)

lemma CaptureStderr_InrD:
  "CaptureStderr rl w = Inr w' \<Longrightarrow>
   \<exists>p. rl = Some p \<and> p < length (heap w) \<and>
       w' = w\<lparr>heap := (heap w)[p := (heap w ! p)\<lparr>captureStderr := True\<rparr>],
              os_Stderr := ToFile (logFile (heap w ! p))\<rparr>"
  by (auto simp: CaptureStderr_def Let_def split: option.splits if_splits)

lemma stdout_follows_rotation:
  assumes "p < length (heap w1)" and "captureStdout (heap w1 ! p)"
    and "run ops w1 = Inr w2" and "rotate_rl (Some p) w2 = Inr w3"
  shows "logFile (heap w3 ! p) = Some (length (os_files w2)) \<and>
         os_Stdout w3 = ToFile (logFile (heap w3 ! p))"
proof -
  from heap_le_run[OF assms(3)] assms(1,2) have c: "captureStdout (heap w2 ! p)"
    by (simp add: heap_le_def)
  from rotate_heap[OF assms(4)] have "logFile (heap w3 ! p) = Some (length (os_files w2))"
    by simp
  then show ?thesis using rotate_os_Stdout[OF assms(4) c] by simp
qed

lemma stderr_follows_rotation:
  assumes "p < length (heap w1)" and "captureStderr (heap w1 ! p)"
    and "run ops w1 = Inr w2" and "rotate_rl (Some p) w2 = Inr w3"
  shows "logFile (heap w3 ! p) = Some (length (os_files w2)) \<and>
         os_Stderr w3 = ToFile (logFile (heap w3 ! p))"
proof -
  from heap_le_run[OF assms(3)] assms(1,2) have c: "captureStderr (heap w2 ! p)"
    by (simp add: heap_le_def)
  from rotate_heap[OF assms(4)] have "logFile (heap w3 ! p) = Some (length (os_files w2))"
    by simp
  then show ?thesis using rotate_os_Stderr[OF assms(4) c] by simp
qed

lemma mustOpen0_fail:
  "fs_err w nm = Some err \<Longrightarrow> mustOpenFileForAppend0 nm w = Inl (Fatal (Sprint_Error err))"
  by (simp add: mustOpenFileForAppend0_def os_OpenFile_def)

lemma mustOpen0_InrD:
  "mustOpenFileForAppend0 nm w = Inr (f, w') \<Longrightarrow>
   fs_err w nm = None \<and> f = length (os_files w) \<and> w' = w\<lparr>os_files := os_files w @ [new_file nm]\<rparr>"
  by (cases "fs_err w nm") (auto simp: mustOpenFileForAppend0_def os_OpenFile_def new_file_def)




lemma quit_send_InrD:
  "quit_send q w = Inr w' \<Longrightarrow>
   \<exists>i. q = Some i \<and> i < length (listeners w) \<and> l_running (listeners w ! i) \<and>
       w' = w\<lparr>listeners := (listeners w)[i := (listeners w ! i)\<lparr>l_running := False\<rparr>]\<rparr>"
  by (auto simp: quit_send_def split: option.splits if_splits)

lemmas ex_defs = w_started_def w_rotated_def w_pending_def w_capout_def w_caperr_def
  w_capout_rot_def w_caperr_rot_def w_gone_def w_closed_def app_ctl_def app_log_def
  w_init_def init_world_def w_bad_def p_init_def p_bad_def p_started_def p_closed_def
  app_ctl0_def enoent_def new_file_def

lemma rotate_w_started: "rotate_rl (Some 0) w_started = Inr w_rotated"
  by (simp add: rotate_ok file_Close_def ex_defs fun_eq_iff)

lemma mustOpen_w_init:
  "mustOpenFileForAppend ''app.log'' w_init =
   Inr (0, w_init\<lparr>os_files := [app_log], files := [''app.log'' \<mapsto> 0]\<rparr>)"
  by (simp add: mustOpen_ok ex_defs)

lemma mustOpen0_p_init:
  "mustOpenFileForAppend0 ''app.log'' p_init = Inr (0, p_init\<lparr>os_files := [app_log]\<rparr>)"
  by (simp add: mustOpenFileForAppend0_def os_OpenFile_def ex_defs)

lemma latest_w_started:
  "latest ''app.log'' (os_files w_started) = Some 0"
  "latest ''other.log'' (os_files w_started) = None"
  by (simp_all add: w_started_def app_log_def)

lemma CaptureStdout_w_started: "CaptureStdout (Some 0) w_started = Inr w_capout"
  by (simp add: CaptureStdout_def Let_def ex_defs)

lemma CaptureStderr_w_started: "CaptureStderr (Some 0) w_started = Inr w_caperr"
  by (simp add: CaptureStderr_def Let_def ex_defs)

lemma rotate_w_capout: "rotate_rl (Some 0) w_capout = Inr w_capout_rot"
  by (simp add: rotate_ok file_Close_def ex_defs fun_eq_iff)

lemma rotate_w_caperr: "rotate_rl (Some 0) w_caperr = Inr w_caperr_rot"
  by (simp add: rotate_ok file_Close_def ex_defs fun_eq_iff)

lemma fs_w_bad: "fs_err w_bad ''app.log'' = Some enoent" "files w_bad ''app.log'' = None"
  by (simp_all add: ex_defs)

lemma fs_w_gone: "fs_err w_gone ''app.log'' = Some enoent"
  "0 < length (heap w_gone) \<and> name (heap w_gone ! 0) = ''app.log''"
  by (simp_all add: ex_defs)

lemma fs_p_bad: "fs_err p_bad ''app.log'' = Some enoent"
  by (simp add: ex_defs)


lemma Close_w_started: "Close (Some 0) w_started = Inr w_closed"
  by (simp add: Close_def deref_def quit_send_def file_Close_def ex_defs)

lemma rotate_listeners: "rotate_rl rl w = Inr w' \<Longrightarrow> listeners w' = listeners w"
proof -
  assume a: "rotate_rl rl w = Inr w'"
  from rotate_InrD[OF a] obtain p w0 w2 where
    o: "mustOpenFileForAppend (name (heap w ! p)) w = Inr (length (os_files w), w0)"
    and s: "setOutput (Some p) (set_logFile p (Some (length (os_files w))) w0) = Inr w2"
    and w': "w' = file_Close (logFile (heap w ! p)) w2"
    by auto
  show ?thesis
    using mustOpen_InrD[OF o] setOutput_proj(4)[OF s] w'
    by (simp add: file_Close_proj set_logFile_def)
qed

lemma run_append:
  "run (xs @ ys) w = (case run xs w of Inl e \<Rightarrow> Inl e | Inr w1 \<Rightarrow> run ys w1)"
  by (induction xs arbitrary: w) (auto split: sum.splits)

lemma deliver_twice: "deliver s (deliver s w) = deliver s w"
  by (simp add: deliver_def sigs_cap_def comp_def cong: map_cong)

lemma run_signals: "run (replicate (Suc n) (OpSignal s)) w = Inr (deliver s w)"
  by (induction n arbitrary: w) (simp_all add: deliver_twice)

lemma listener_step_idle: "sigs (listeners w ! i) = [] \<Longrightarrow> listener_step i w = Inr w"
  by (simp add: listener_step_def)

lemma run_listens_idle:
  "sigs (listeners w ! i) = [] \<Longrightarrow> run (replicate k (OpListen i)) w = Inr w"
  by (induction k) (simp_all add: listener_step_idle)

lemma listener_step_one:
  assumes i: "i < length (listeners w)" "l_running (listeners w ! i)"
    and s: "sigs (listeners w ! i) = [sg]"
    and p: "l_rl (listeners w ! i) = p" "p < length (heap w)" "signal (heap w ! p) = sg"
    and f: "fs_err w (name (heap w ! p)) = None"
  shows "\<exists>w2. listener_step i w = Inr w2 \<and>
           l_rotations (listeners w2 ! i) = Suc (l_rotations (listeners w ! i)) \<and>
           sigs (listeners w2 ! i) = []"
proof -
  define w1 where "w1 = w\<lparr>listeners := (listeners w)[i := (listeners w ! i)\<lparr>sigs := []\<rparr>]\<rparr>"
  have h1: "heap w1 = heap w" "fs_err w1 = fs_err w" by (simp_all add: w1_def)
  from rotate_ok[of p w1] p(2) f h1 obtain w2 where r: "rotate_rl (Some p) w1 = Inr w2"
    by auto
  have l2: "listeners w2 = listeners w1" by (rule rotate_listeners[OF r])
  have "listener_step i w =
        Inr (w2\<lparr>listeners := (listeners w2)
               [i := (listeners w2 ! i)\<lparr>l_rotations := Suc (l_rotations (listeners w2 ! i))\<rparr>]\<rparr>)"
    using i s p h1 r by (simp add: listener_step_def Let_def deref_def w1_def[symmetric])
  then show ?thesis using i(1) by (simp add: l2 w1_def)
qed

lemma burst_rotates_once:
  assumes i: "i < length (listeners v)" "l_running (listeners v ! i)"
    and s: "sigs (listeners v ! i) = []" "l_sig (listeners v ! i) = sg"
    and p: "l_rl (listeners v ! i) = p" "p < length (heap v)" "signal (heap v ! p) = sg"
    and f: "fs_err v (name (heap v ! p)) = None"
  shows "rotations_after (replicate (Suc n) (OpSignal sg) @ replicate (Suc k) (OpListen i)) i v =
         Some (Suc (l_rotations (listeners v ! i)))"
proof -
  let ?d = "deliver sg v"
  have d: "listeners ?d ! i = (listeners v ! i)\<lparr>sigs := [sg]\<rparr>" "i < length (listeners ?d)"
    "heap ?d = heap v" "fs_err ?d = fs_err v"
    using i s by (simp_all add: deliver_def sigs_cap_def)
  have "\<exists>w2. listener_step i ?d = Inr w2 \<and>
           l_rotations (listeners w2 ! i) = Suc (l_rotations (listeners ?d ! i)) \<and>
           sigs (listeners w2 ! i) = []"
    using i p f d by (intro listener_step_one[of i ?d sg p]) simp_all
  then obtain w2 where w2: "listener_step i ?d = Inr w2"
    "l_rotations (listeners w2 ! i) = Suc (l_rotations (listeners v ! i))"
    "sigs (listeners w2 ! i) = []"
    using d(1) by auto
  have "run (replicate (Suc k) (OpListen i)) ?d = Inr w2"
    using w2(1) run_listens_idle[OF w2(3)] by simp
  then have "run (replicate (Suc n) (OpSignal sg) @ replicate (Suc k) (OpListen i)) v = Inr w2"
    by (simp only: run_append run_signals sum.case)
  then show ?thesis by (simp add: rotations_after_def w2(2))
qed

lemma lst_le_same:
  "i < length (listeners w) \<Longrightarrow> listeners w' = listeners w \<Longrightarrow> lst_le i w w'"
  by (simp add: lst_le_def backlog_def)

lemma lst_le_trans: "lst_le i a b \<Longrightarrow> lst_le i b c \<Longrightarrow> lst_le i a c"
  by (auto simp: lst_le_def)

lemma lst_le_rotateOn:
  assumes "rotateOn nm sig ls w = Inr (p, w')" and "i < length (listeners w)"
  shows "lst_le i w w'"
proof -
  from rotateOn_InrD[OF assms(1)] obtain w1 w3 where
    o: "mustOpenFileForAppend nm w = Inr (length (os_files w), w1)"
    and s: "setOutput (Some p) (w1\<lparr>heap := heap w1 @
                [\<lparr>name = nm, logFile = Some (length (os_files w)), signal = sig,
                  quit = Some (length (listeners w)), loggers = ls,
                  captureStdout = False, captureStderr = False\<rparr>]\<rparr>) = Inr w3"
    and w': "w' = w3\<lparr>listeners := listeners w3 @
                  [\<lparr>l_rl = p, l_sig = sig, sigs = [], l_running = True, l_rotations = 0\<rparr>]\<rparr>"
    by blast
  have "listeners w3 = listeners w"
    using setOutput_proj(4)[OF s] mustOpen_new_file[OF o] by simp
  then show ?thesis using assms(2) by (simp add: w' lst_le_def backlog_def nth_append)
qed

lemma lst_le_Capture:
  "CaptureStdout rl w = Inr w' \<Longrightarrow> i < length (listeners w) \<Longrightarrow> lst_le i w w'"
  "CaptureStderr rl w = Inr w' \<Longrightarrow> i < length (listeners w) \<Longrightarrow> lst_le i w w'"
  by (auto dest!: CaptureStdout_InrD CaptureStderr_InrD intro: lst_le_same)

lemma lst_le_Open: "Open nm w = Inr (f, w') \<Longrightarrow> i < length (listeners w) \<Longrightarrow> lst_le i w w'"
  by (auto simp: Open_def split: option.splits dest!: mustOpen_new_file intro: lst_le_same)

lemma lst_le_WriteAllTo:
  assumes "WriteAllTo nm ls w = Inr (p, w')" and "i < length (listeners w)"
  shows "lst_le i w w'"
proof -
  from assms(1) obtain w1 w2 where 1: "rotateOn nm SIGHUP ls w = Inr (p, w1)"
    and 2: "CaptureStdout (Some p) w1 = Inr w2" and 3: "CaptureStderr (Some p) w2 = Inr w'"
    by (auto simp: WriteAllTo_def WriteTo_def split: sum.splits)
  have a: "lst_le i w w1" by (rule lst_le_rotateOn[OF 1 assms(2)])
  then have b: "lst_le i w1 w2" using lst_le_Capture(1)[OF 2] by (simp add: lst_le_def)
  then have c: "lst_le i w2 w'" using lst_le_Capture(2)[OF 3] by (simp add: lst_le_def)
  from a b c show ?thesis by (blast intro: lst_le_trans)
qed

lemma lst_le_Close:
  assumes "Close rl w = Inr w'" and "i < length (listeners w)"
  shows "lst_le i w w'"
proof -
  from assms(1) consider "w' = w"
    | q h w1 where "quit_send q w = Inr w1" "w' = file_Close (Some h) w1"
    by (auto simp: Close_def split: option.splits sum.splits)
  then show ?thesis
  proof cases
    case 1
    then show ?thesis using assms(2) by (simp add: lst_le_same)
  next
    case 2
    from quit_send_InrD[OF 2(1)] obtain j where "j < length (listeners w)"
      "w1 = w\<lparr>listeners := (listeners w)[j := (listeners w ! j)\<lparr>l_running := False\<rparr>]\<rparr>"
      by blast
    then show ?thesis
      using assms(2) by (auto simp: 2(2) file_Close_proj lst_le_def backlog_def nth_list_update)
  qed
qed

lemma lst_le_listener_step:
  assumes "listener_step j w = Inr w'" and "i < length (listeners w)"
  shows "lst_le i w w'"
proof (cases "w' = w")
  case True
  then show ?thesis using assms(2) by (simp add: lst_le_same)
next
  case False
  with assms(1) obtain s rest where j: "j < length (listeners w)"
    "sigs (listeners w ! j) = s # rest"
    by (auto simp: listener_step_def split: if_splits list.splits)
  define w1 where "w1 = w\<lparr>listeners := (listeners w)[j := (listeners w ! j)\<lparr>sigs := rest\<rparr>]\<rparr>"
  have l1: "lst_le i w w1"
    using assms(2) j by (auto simp: w1_def lst_le_def backlog_def nth_list_update)
  from assms(1) j False consider "w' = w1"
    | w2 where "rotate_rl (Some (l_rl (listeners w ! j))) w1 = Inr w2"
        "w' = w2\<lparr>listeners := (listeners w2)
                   [j := (listeners w2 ! j)\<lparr>l_rotations := Suc (l_rotations (listeners w2 ! j))\<rparr>]\<rparr>"
    by (auto simp: listener_step_def Let_def w1_def split: if_splits option.splits sum.splits)
  then show ?thesis
  proof cases
    case 1
    then show ?thesis using l1 by simp
  next
    case 2
    have l2: "listeners w2 = listeners w1" by (rule rotate_listeners[OF 2(1)])
    show ?thesis
      using assms(2) j
      by (auto simp: 2(2) l2 w1_def lst_le_def backlog_def nth_list_update)
  qed
qed

lemma backlog_deliver:
  assumes "i < length (listeners w)"
  shows "i < length (listeners (deliver s w)) \<and>
         l_sig (listeners (deliver s w) ! i) = l_sig (listeners w ! i) \<and>
         backlog i (deliver s w) \<le>
           backlog i w + (if s = l_sig (listeners w ! i) then 1 else 0)"
  using assms by (simp add: deliver_def backlog_def)

lemma backlog_apply_op:
  assumes "apply_op x w = Inr w'" and "i < length (listeners w)"
  shows "i < length (listeners w') \<and> l_sig (listeners w' ! i) = l_sig (listeners w ! i) \<and>
         backlog i w' \<le> backlog i w + (if x = OpSignal (l_sig (listeners w ! i)) then 1 else 0)"
proof (cases x)
  case (OpSignal s)
  with assms(1) have "w' = deliver s w" by simp
  then show ?thesis using backlog_deliver[OF assms(2), of s] OpSignal by auto
next
  case (OpOpen nm)
  with assms have "lst_le i w w'"
    by (auto simp: discard_def split: sum.splits dest: lst_le_Open)
  then show ?thesis using OpOpen by (simp add: lst_le_def)
next
  case (OpWriteTo nm ls)
  with assms have "lst_le i w w'"
    by (auto simp: discard_def WriteTo_def split: sum.splits dest: lst_le_rotateOn)
  then show ?thesis using OpWriteTo by (simp add: lst_le_def)
next
  case (OpWriteAllTo nm ls)
  with assms have "lst_le i w w'"
    by (auto simp: discard_def split: sum.splits dest: lst_le_WriteAllTo)
  then show ?thesis using OpWriteAllTo by (simp add: lst_le_def)
next
  case (OpClose rl)
  with assms have "lst_le i w w'" by (auto dest: lst_le_Close)
  then show ?thesis using OpClose by (simp add: lst_le_def)
next
  case (OpCaptureStdout rl)
  with assms have "lst_le i w w'" by (auto dest: lst_le_Capture)
  then show ?thesis using OpCaptureStdout by (simp add: lst_le_def)
next
  case (OpCaptureStderr rl)
  with assms have "lst_le i w w'" by (auto dest: lst_le_Capture)
  then show ?thesis using OpCaptureStderr by (simp add: lst_le_def)
next
  case (OpListen j)
  with assms have "lst_le i w w'" by (auto dest: lst_le_listener_step)
  then show ?thesis using OpListen by (simp add: lst_le_def)
next
  case (OpFs nm e)
  with assms have "lst_le i w w'" by (auto intro: lst_le_same)
  then show ?thesis using OpFs by (simp add: lst_le_def)
qed

lemma backlog_run:
  assumes "run ops w = Inr w'" and "i < length (listeners w)"
  shows "i < length (listeners w') \<and> l_sig (listeners w' ! i) = l_sig (listeners w ! i) \<and>
         backlog i w' \<le> backlog i w + count_list ops (OpSignal (l_sig (listeners w ! i)))"
  using assms
proof (induction ops arbitrary: w)
  case Nil
  then show ?case by simp
next
  case (Cons x ops)
  from Cons.prems(1) obtain w1 where 1: "apply_op x w = Inr w1" "run ops w1 = Inr w'"
    by (auto split: sum.splits)
  note a = backlog_apply_op[OF 1(1) Cons.prems(2)]
  from a have i1: "i < length (listeners w1)" by simp
  note b = Cons.IH[OF 1(2) i1]
  from a b show ?case by auto
qed

lemma listener_step_rotates:
  assumes "listener_step j u = Inr u'" and "j < length (listeners u)"
  shows "l_rotations (listeners u' ! j) = l_rotations (listeners u ! j) \<or>
         (l_rotations (listeners u' ! j) = Suc (l_rotations (listeners u ! j)) \<and>
          (\<exists>s rest u2.
             sigs (listeners u ! j) = s # rest \<and>
             rotate_rl (Some (l_rl (listeners u ! j)))
               (u\<lparr>listeners := (listeners u)[j := (listeners u ! j)\<lparr>sigs := rest\<rparr>]\<rparr>) = Inr u2 \<and>
             heap u' = heap u2 \<and> os_files u' = os_files u2 \<and> files u' = files u2 \<and>
             log_out u' = log_out u2))"
proof (cases "u' = u")
  case True
  then show ?thesis by simp
next
  case False
  with assms(1) obtain s rest where j: "sigs (listeners u ! j) = s # rest"
    by (auto simp: listener_step_def split: if_splits list.splits)
  define w1 where "w1 = u\<lparr>listeners := (listeners u)[j := (listeners u ! j)\<lparr>sigs := rest\<rparr>]\<rparr>"
  from assms j False consider "u' = w1"
    | w2 where "rotate_rl (Some (l_rl (listeners u ! j))) w1 = Inr w2"
        "u' = w2\<lparr>listeners := (listeners w2)
                   [j := (listeners w2 ! j)\<lparr>l_rotations := Suc (l_rotations (listeners w2 ! j))\<rparr>]\<rparr>"
    by (auto simp: listener_step_def Let_def w1_def split: if_splits option.splits sum.splits)
  then show ?thesis
  proof cases
    case 1
    then show ?thesis using assms(2) by (simp add: w1_def)
  next
    case 2
    have l2: "listeners w2 = listeners w1" by (rule rotate_listeners[OF 2(1)])
    have "l_rotations (listeners u' ! j) = Suc (l_rotations (listeners u ! j))"
      using assms(2) by (simp add: 2(2) l2 w1_def)
    moreover have "heap u' = heap w2 \<and> os_files u' = os_files w2 \<and> files u' = files w2 \<and>
             log_out u' = log_out w2"
      by (simp add: 2(2))
    ultimately show ?thesis using j 2(1) unfolding w1_def by blast
  qed
qed

lemma deliver_w_started: "deliver SIGHUP w_started = w_signalled"
  by (simp add: deliver_def sigs_cap_def w_signalled_def w_started_def)

lemma deliver_w_signalled: "deliver SIGHUP w_signalled = w_signalled"
  by (simp add: deliver_def sigs_cap_def w_signalled_def w_started_def)

lemma listen_w_signalled: "listener_step 0 w_signalled = Inr w_rotated1"
  by (simp add: listener_step_def deref_def Let_def rotate_ok file_Close_def w_signalled_def
      w_rotated1_def ex_defs fun_eq_iff)

lemma listen_w_rotated1: "listener_step 0 w_rotated1 = Inr w_rotated1"
  by (simp add: listener_step_idle w_rotated1_def)

lemma run_burst_of_two:
  "run [OpSignal SIGHUP, OpSignal SIGHUP, OpListen 0, OpListen 0] w_started = Inr w_rotated1"
  by (simp add: deliver_w_started deliver_w_signalled listen_w_signalled listen_w_rotated1)






section \<open>The properties\<close>



text \<open>
  \<^bold>\<open>C2\<close>. The claim that \<open>N\<close> signals in quick succession give exactly \<open>N\<close> rotations
  fails: the channel \<open>sigs\<close> holds one signal and package \<open>os/signal\<close> does not wait for
  room, so of two signals that arrive before the listener takes the first, the second is
  dropped and \<open>rotate\<close> is called once.
\<close>

theorem two_signals_one_rotation:
  "rotations_after [OpSignal SIGHUP, OpSignal SIGHUP, OpListen 0, OpListen 0] 0 w_started = Some 1 \<and>
   rotations_after [OpSignal SIGHUP, OpSignal SIGHUP, OpListen 0, OpListen 0] 0 w_started \<noteq> Some 2"
  unfolding rotations_after_def run_burst_of_two by (simp add: w_rotated1_def)

text \<open>
  \<^bold>\<open>C2\<close>, as amended. In every run, the rotations a listener has made plus the signals
  waiting in its channel grow by at most the number of its signals delivered, so there are
  never more rotations than signals. When one or more signals arrive while the running
  listener's channel is empty and before it takes any of them, and its file can be
  reopened, exactly one rotation follows, however many turns the listener then gets. In one
  turn of its loop a listener makes no rotation or exactly one, and that one is a whole
  call of \<open>rotate\<close> (new file opened, output redirected, old file closed) on the state in
  which the signal was taken from the channel: it is over before the next signal is taken.
\<close>

theorem rotations_at_most_signals:
  "(run ops w = Inr w' \<and> i < length (listeners w) \<longrightarrow>
      l_rotations (listeners w' ! i) + length (sigs (listeners w' ! i)) \<le>
        l_rotations (listeners w ! i) + length (sigs (listeners w ! i)) +
        count_list ops (OpSignal (l_sig (listeners w ! i)))) \<and>
   (k < length (listeners v) \<and> l_running (listeners v ! k) \<and>
    sigs (listeners v ! k) = [] \<and> l_sig (listeners v ! k) = sg \<and>
    l_rl (listeners v ! k) = p \<and> p < length (heap v) \<and> signal (heap v ! p) = sg \<and>
    fs_err v (name (heap v ! p)) = None \<longrightarrow>
      rotations_after (replicate (Suc n) (OpSignal sg) @ replicate (Suc m) (OpListen k)) k v =
        Some (Suc (l_rotations (listeners v ! k)))) \<and>
   (listener_step j u = Inr u' \<and> j < length (listeners u) \<longrightarrow>
      l_rotations (listeners u' ! j) = l_rotations (listeners u ! j) \<or>
      (l_rotations (listeners u' ! j) = Suc (l_rotations (listeners u ! j)) \<and>
       (\<exists>s rest u2.
          sigs (listeners u ! j) = s # rest \<and>
          rotate_rl (Some (l_rl (listeners u ! j)))
            (u\<lparr>listeners := (listeners u)[j := (listeners u ! j)\<lparr>sigs := rest\<rparr>]\<rparr>) = Inr u2 \<and>
          heap u' = heap u2 \<and> os_files u' = os_files u2 \<and> files u' = files u2 \<and>
          log_out u' = log_out u2)))"
proof (intro conjI impI)
  assume "run ops w = Inr w' \<and> i < length (listeners w)"
  then show "l_rotations (listeners w' ! i) + length (sigs (listeners w' ! i)) \<le>
        l_rotations (listeners w ! i) + length (sigs (listeners w ! i)) +
        count_list ops (OpSignal (l_sig (listeners w ! i)))"
    using backlog_run[of ops w w' i] by (simp add: backlog_def)
next
  assume "k < length (listeners v) \<and> l_running (listeners v ! k) \<and>
    sigs (listeners v ! k) = [] \<and> l_sig (listeners v ! k) = sg \<and>
    l_rl (listeners v ! k) = p \<and> p < length (heap v) \<and> signal (heap v ! p) = sg \<and>
    fs_err v (name (heap v ! p)) = None"
  then show "rotations_after (replicate (Suc n) (OpSignal sg) @ replicate (Suc m) (OpListen k)) k v =
        Some (Suc (l_rotations (listeners v ! k)))"
    using burst_rotates_once[of k v sg p n m] by blast
next
  assume "listener_step j u = Inr u' \<and> j < length (listeners u)"
  then show "l_rotations (listeners u' ! j) = l_rotations (listeners u ! j) \<or>
      (l_rotations (listeners u' ! j) = Suc (l_rotations (listeners u ! j)) \<and>
       (\<exists>s rest u2.
          sigs (listeners u ! j) = s # rest \<and>
          rotate_rl (Some (l_rl (listeners u ! j)))
            (u\<lparr>listeners := (listeners u)[j := (listeners u ! j)\<lparr>sigs := rest\<rparr>]\<rparr>) = Inr u2 \<and>
          heap u' = heap u2 \<and> os_files u' = os_files u2 \<and> files u' = files u2 \<and>
          log_out u' = log_out u2))"
    using listener_step_rotates[of j u u'] by blast
qed

theorem rotations_at_most_signals_witness:
  "run [OpSignal SIGHUP, OpSignal SIGHUP, OpListen 0, OpListen 0] w_started = Inr w_rotated1 \<and>
   0 < length (listeners w_started) \<and>
   l_rotations (listeners w_rotated1 ! 0) + length (sigs (listeners w_rotated1 ! 0)) \<le> 2 \<and>
   rotations_after (replicate 2 (OpSignal SIGHUP) @ replicate 2 (OpListen 0)) 0 w_started = Some 1 \<and>
   listener_step 0 w_signalled = Inr w_rotated1 \<and>
   l_rotations (listeners w_rotated1 ! 0) = Suc (l_rotations (listeners w_signalled ! 0))"
proof -
  have a: "0 < length (listeners w_started) \<and> l_running (listeners w_started ! 0) \<and>
    sigs (listeners w_started ! 0) = [] \<and> l_sig (listeners w_started ! 0) = SIGHUP \<and>
    l_rl (listeners w_started ! 0) = 0 \<and> 0 < length (heap w_started) \<and>
    signal (heap w_started ! 0) = SIGHUP \<and>
    fs_err w_started (name (heap w_started ! 0)) = None"
    by (simp add: ex_defs)
  have b: "l_rotations (listeners w_started ! 0) = 0" "length (listeners w_signalled) = 1"
    "l_rotations (listeners w_signalled ! 0) = 0" "sigs (listeners w_signalled ! 0) \<noteq> []"
    by (simp_all add: w_signalled_def ex_defs)
  have c: "count_list [OpSignal SIGHUP, OpSignal SIGHUP, OpListen 0, OpListen 0] (OpSignal SIGHUP) = 2"
    by simp
  have r: "replicate 2 (OpSignal SIGHUP) = replicate (Suc 1) (OpSignal SIGHUP)"
    "replicate 2 (OpListen 0) = replicate (Suc 1) (OpListen 0)"
    by (simp_all add: numeral_2_eq_2)
  note t = rotations_at_most_signals[of "[OpSignal SIGHUP, OpSignal SIGHUP, OpListen 0, OpListen 0]"
      w_started w_rotated1 0 0 w_started SIGHUP 0 1 1 0 w_signalled w_rotated1]
  from t run_burst_of_two a b c
  have 1: "l_rotations (listeners w_rotated1 ! 0) + length (sigs (listeners w_rotated1 ! 0)) \<le> 2"
    by simp
  from t a b
  have 2: "rotations_after (replicate 2 (OpSignal SIGHUP) @ replicate 2 (OpListen 0)) 0 w_started = Some 1"
    unfolding r by simp
  from t listen_w_signalled b
  have 3: "l_rotations (listeners w_rotated1 ! 0) = Suc (l_rotations (listeners w_signalled ! 0))"
    by (auto simp: w_rotated1_def)
  show ?thesis using run_burst_of_two a 1 2 3 listen_w_signalled by blast
qed

text \<open>
  \<^bold>\<open>C3\<close>. After any run of the process, \<open>Open(P)\<close> returns the file opened last under
  \<open>P\<close> (every open of the package registers its file) and changes nothing. If no file was
  ever opened under \<open>P\<close>, \<open>Open(P)\<close> is \<open>mustOpenFileForAppend(P)\<close>: when that succeeds it
  returns a new file for \<open>P\<close>, now the latest for \<open>P\<close> and registered, which the next
  \<open>Open(P)\<close> returns again.
\<close>

theorem Open_returns_latest_registered:
  assumes "run ops (init_world fs lo) = Inr w"
  shows "case latest nm (os_files w) of
           Some h \<Rightarrow>
             Open nm w = Inr (h, w) \<and> h < length (os_files w) \<and> f_name (os_files w ! h) = nm \<and>
             (\<forall>j<length (os_files w). h < j \<longrightarrow> f_name (os_files w ! j) \<noteq> nm)
         | None \<Rightarrow>
             (\<forall>j<length (os_files w). f_name (os_files w ! j) \<noteq> nm) \<and>
             Open nm w = mustOpenFileForAppend nm w \<and>
             (\<forall>f w'. Open nm w = Inr (f, w') \<longrightarrow>
                f = length (os_files w) \<and> os_files w' = os_files w @ [new_file nm] \<and>
                files w' nm = Some f \<and> latest nm (os_files w') = Some f \<and>
                Open nm w' = Inr (f, w'))"
proof -
  have r: "registry_ok (store w)" using registry_ok_run[OF assms] store_init(2) by blast
  then have f: "files w nm = latest nm (os_files w)" by (simp add: registry_ok_def store_def)
  show ?thesis
  proof (cases "latest nm (os_files w)")
    case None
    have n: "\<And>f w'. Open nm w = Inr (f, w') \<Longrightarrow>
                f = length (os_files w) \<and> os_files w' = os_files w @ [new_file nm] \<and>
                files w' nm = Some f \<and> latest nm (os_files w') = Some f \<and>
                Open nm w' = Inr (f, w')"
    proof -
      fix f' w'
      assume "Open nm w = Inr (f', w')"
      then have o: "mustOpenFileForAppend nm w = Inr (f', w')" using f None by (simp add: Open_def)
      from mustOpen_new_file[OF o] show "f' = length (os_files w) \<and> os_files w' = os_files w @ [new_file nm] \<and>
                files w' nm = Some f' \<and> latest nm (os_files w') = Some f' \<and>
                Open nm w' = Inr (f', w')"
        by (simp add: latest_append new_file_def Open_def)
    qed
    have o: "Open nm w = mustOpenFileForAppend nm w" using f None by (simp add: Open_def)
    have c: "(\<forall>j<length (os_files w). f_name (os_files w ! j) \<noteq> nm) \<and>
             Open nm w = mustOpenFileForAppend nm w \<and>
             (\<forall>f w'. Open nm w = Inr (f, w') \<longrightarrow>
                f = length (os_files w) \<and> os_files w' = os_files w @ [new_file nm] \<and>
                files w' nm = Some f \<and> latest nm (os_files w') = Some f \<and>
                Open nm w' = Inr (f, w'))"
      using latest_None[OF None] o n by blast
    show ?thesis unfolding None option.case by (rule c)
  next
    case (Some h)
    then show ?thesis using f latest_Some[OF Some] by (simp add: Open_def)
  qed
qed

theorem Open_returns_latest_registered_witness:
  "run [OpWriteTo ''app.log'' [7]] (init_world (\<lambda>nm. None) (\<lambda>l. StdStream 2)) = Inr w_started \<and>
   latest ''app.log'' (os_files w_started) = Some 0 \<and>
   Open ''app.log'' w_started = Inr (0, w_started) \<and>
   latest ''other.log'' (os_files w_started) = None \<and>
   Open ''other.log'' w_started = mustOpenFileForAppend ''other.log'' w_started \<and>
   Open ''other.log'' w_started = Inr (1, w_other) \<and>
   files w_other ''other.log'' = Some 1 \<and>
   Open ''other.log'' w_other = Inr (1, w_other)"
proof -
  have a: "run [OpWriteTo ''app.log'' [7]] (init_world (\<lambda>nm. None) (\<lambda>l. StdStream 2)) = Inr w_started"
    using run_WriteTo_w_init by (simp add: w_init_def)
  have o: "Open ''other.log'' w_started = Inr (1, w_other)"
    by (simp add: Open_def mustOpen_ok w_other_def w_started_def new_file_def)
  note t = Open_returns_latest_registered[OF a, of "''other.log''"]
  from t have m: "Open ''other.log'' w_started = mustOpenFileForAppend ''other.log'' w_started"
    by (simp add: latest_w_started)
  from t o have n: "files w_other ''other.log'' = Some 1" "Open ''other.log'' w_other = Inr (1, w_other)"
    by (simp_all add: latest_w_started)
  from Open_returns_latest_registered[OF a, of "''app.log''"]
  have k: "Open ''app.log'' w_started = Inr (0, w_started)"
    by (simp add: latest_w_started)
  show ?thesis by (intro conjI a latest_w_started k m o n)
qed

text \<open>
  \<^bold>\<open>C4\<close>. When the file cannot be opened, \<open>mustOpenFileForAppend\<close> ends the process with
  \<open>log.Fatalf\<close> and a message made from the error; so do \<open>Open\<close> on a path not yet
  registered, \<open>rotateOn\<close>, \<open>WriteTo\<close> and \<open>WriteAllTo\<close> at the start, and \<open>rotate\<close> for a
  controller on that path. When \<open>mustOpenFileForAppend\<close> returns, the open did not fail
  and the file returned is an open file under the path asked for. The same holds for the
  earlier variants, with \<open>log.Fatal\<close>. (The message is handed to the standard logger;
  what its output then holds is not part of the state.)
\<close>

theorem open_failure_is_fatal:
  "(fs_err w nm = Some err \<longrightarrow>
      mustOpenFileForAppend nm w = Inl (Fatal (Sprintf_error err)) \<and>
      (files w nm = None \<longrightarrow> Open nm w = Inl (Fatal (Sprintf_error err))) \<and>
      rotateOn nm sig ls w = Inl (Fatal (Sprintf_error err)) \<and>
      WriteTo nm ls w = Inl (Fatal (Sprintf_error err)) \<and>
      WriteAllTo nm ls w = Inl (Fatal (Sprintf_error err)) \<and>
      (p < length (heap w) \<and> name (heap w ! p) = nm \<longrightarrow>
         rotate_rl (Some p) w = Inl (Fatal (Sprintf_error err))) \<and>
      Sprintf_error err \<noteq> []) \<and>
   (mustOpenFileForAppend nm' v = Inr (f, v') \<longrightarrow>
      fs_err v nm' = None \<and> is_open v' f \<and> f_name (os_files v' ! f) = nm') \<and>
   (fs_err pw nm0 = Some err0 \<longrightarrow>
      mustOpenFileForAppend0 nm0 pw = Inl (Fatal (Sprint_Error err0)) \<and>
      rotateOn0 nm0 sig0 pw = Inl (Fatal (Sprint_Error err0)) \<and>
      (name0 r = nm0 \<longrightarrow> on_signal0 (signal0 r) r pw = Inl (Fatal (Sprint_Error err0))) \<and>
      Sprint_Error err0 \<noteq> []) \<and>
   (mustOpenFileForAppend0 nm1 pv = Inr (f0, pv') \<longrightarrow>
      fs_err pv nm1 = None \<and> is_open pv' f0 \<and> f_name (os_files pv' ! f0) = nm1)"
proof (intro conjI impI)
  assume "mustOpenFileForAppend nm' v = Inr (f, v')"
  from mustOpen_InrD[OF this]
  show "fs_err v nm' = None" "is_open v' f" "f_name (os_files v' ! f) = nm'"
    by (simp_all add: is_open_def)
next
  assume "mustOpenFileForAppend0 nm1 pv = Inr (f0, pv')"
  from mustOpen0_InrD[OF this]
  show "fs_err pv nm1 = None" "is_open pv' f0" "f_name (os_files pv' ! f0) = nm1"
    by (simp_all add: is_open_def new_file_def)
qed (simp_all add: mustOpen_fail mustOpen0_fail Open_def rotateOn_def WriteTo_def WriteAllTo_def
    rotate_rl_def rotateOn0_def on_signal0_def Sprintf_error_def Sprint_Error_def)

theorem open_failure_is_fatal_witness:
  "fs_err w_bad ''app.log'' = Some enoent \<and>
   mustOpenFileForAppend ''app.log'' w_bad =
     Inl (Fatal ''error: %!(EXTRA *fs.PathError=open app.log: no such file or directory)'') \<and>
   Open ''app.log'' w_bad = Inl (Fatal (Sprintf_error enoent)) \<and>
   WriteTo ''app.log'' [7] w_bad = Inl (Fatal (Sprintf_error enoent)) \<and>
   WriteAllTo ''app.log'' [7] w_bad = Inl (Fatal (Sprintf_error enoent)) \<and>
   fs_err w_gone ''app.log'' = Some enoent \<and>
   rotate_rl (Some 0) w_gone = Inl (Fatal (Sprintf_error enoent)) \<and>
   mustOpenFileForAppend ''app.log'' w_init =
     Inr (0, w_init\<lparr>os_files := [app_log], files := [''app.log'' \<mapsto> 0]\<rparr>) \<and>
   is_open (w_init\<lparr>os_files := [app_log], files := [''app.log'' \<mapsto> 0]\<rparr>) 0 \<and>
   fs_err p_bad ''app.log'' = Some enoent \<and>
   mustOpenFileForAppend0 ''app.log'' p_bad =
     Inl (Fatal ''Error: open app.log: no such file or directory'') \<and>
   rotateOn0 ''app.log'' SIGUSR1 p_bad = Inl (Fatal (Sprint_Error enoent)) \<and>
   on_signal0 SIGUSR1 app_ctl0 p_bad = Inl (Fatal (Sprint_Error enoent)) \<and>
   mustOpenFileForAppend0 ''app.log'' p_init = Inr (0, p_init\<lparr>os_files := [app_log]\<rparr>) \<and>
   is_open (p_init\<lparr>os_files := [app_log]\<rparr>) 0"
proof -
  have n: "name0 app_ctl0 = ''app.log''" "signal0 app_ctl0 = SIGUSR1"
    by (simp_all add: app_ctl0_def)
  have m: "Sprintf_error enoent =
      ''error: %!(EXTRA *fs.PathError=open app.log: no such file or directory)''"
    "Sprint_Error enoent = ''Error: open app.log: no such file or directory''"
    by (simp_all add: Sprintf_error_def Sprint_Error_def enoent_def)
  note t1 = open_failure_is_fatal[of w_bad "''app.log''" enoent SIGHUP "[7]" 0
      "''app.log''" w_init 0 "w_init\<lparr>os_files := [app_log], files := [''app.log'' \<mapsto> 0]\<rparr>"
      p_bad "''app.log''" enoent SIGUSR1 app_ctl0
      "''app.log''" p_init 0 "p_init\<lparr>os_files := [app_log]\<rparr>"]
  note t2 = open_failure_is_fatal[of w_gone "''app.log''" enoent SIGHUP "[7]" 0
      "''app.log''" w_init 0 "w_init\<lparr>os_files := [app_log], files := [''app.log'' \<mapsto> 0]\<rparr>"
      p_bad "''app.log''" enoent SIGUSR1 app_ctl0
      "''app.log''" p_init 0 "p_init\<lparr>os_files := [app_log]\<rparr>"]
  from t1 t2 fs_w_bad fs_w_gone fs_p_bad mustOpen_w_init mustOpen0_p_init n m
  show ?thesis by simp
qed

text \<open>
  \<^bold>\<open>C5\<close>. \<open>Close\<close> on a nil controller does nothing. But a second \<open>Close\<close> on a started
  controller does not return: \<open>logFile\<close> is still non-nil, so \<open>Close\<close> sends on \<open>quit\<close> again,
  and the goroutine that received the first send has returned. In the earlier variants,
  which have no \<open>quit\<close> channel, the second \<open>Close\<close> changes nothing and returns.
\<close>

theorem second_Close_blocks:
  "WriteTo ''app.log'' [7] w_init = Inr (0, w_started) \<and>
   Close (Some 0) w_started = Inr w_closed \<and>
   Close (Some 0) w_closed = Inl Blocked \<and>
   Close None w_closed = Inr w_closed \<and>
   rotateOn0 ''app.log'' SIGUSR1 p_init = Inr (app_ctl0, p_started) \<and>
   Close0 (Some app_ctl0) p_started = p_closed \<and>
   Close0 (Some app_ctl0) p_closed = p_closed \<and>
   Close0 None p_closed = p_closed"
proof -
  have a: "Close (Some 0) w_closed = Inl Blocked"
    by (simp add: Close_def deref_def quit_send_def ex_defs)
  have b: "Close None w_closed = Inr w_closed"
    by (simp add: Close_def deref_def)
  have c: "rotateOn0 ''app.log'' SIGUSR1 p_init = Inr (app_ctl0, p_started)"
    by (simp add: rotateOn0_def mustOpenFileForAppend0_def os_OpenFile_def ex_defs)
  have d: "Close0 (Some app_ctl0) p_started = p_closed"
    "Close0 (Some app_ctl0) p_closed = p_closed" "Close0 None p_closed = p_closed"
    by (simp_all add: Close0_def file_Close_def ex_defs)
  show ?thesis by (intro conjI WriteTo_w_init Close_w_started a b c d)
qed

text \<open>
  \<^bold>\<open>C6\<close>. \<open>setOutput\<close> is idempotent: applied to the state it has just produced, it
  produces that state again.
\<close>

theorem setOutput_idempotent:
  "setOutput rl w = Inr w' \<Longrightarrow> setOutput rl w' = Inr w'"
  by (rule setOutput_idem)

theorem setOutput_idempotent_witness:
  "setOutput (Some 0) w_pending = Inr w_started \<and> setOutput (Some 0) w_started = Inr w_started"
proof -
  have a: "setOutput (Some 0) w_pending = Inr w_started"
    by (simp add: setOutput_ok ex_defs fun_eq_iff)
  from setOutput_idempotent[OF a] a show ?thesis by simp
qed

text \<open>
  \<^bold>\<open>C7\<close>. \<open>CaptureStdout\<close> points \<open>os.Stdout\<close> at the controller's current file (which it
  leaves as it is) and sets \<open>captureStdout\<close>; after any further run of the process, a
  rotation of that controller points \<open>os.Stdout\<close> at the file it has just opened.
  \<open>CaptureStderr\<close> does the same for \<open>os.Stderr\<close>.
\<close>

theorem capture_redirects_now_and_on_every_rotation:
  "(CaptureStdout rl w = Inr w1 \<longrightarrow>
      (\<exists>p. rl = Some p \<and> p < length (heap w) \<and>
         os_Stdout w1 = ToFile (logFile (heap w ! p)) \<and>
         logFile (heap w1 ! p) = logFile (heap w ! p) \<and>
         captureStdout (heap w1 ! p) \<and>
         (\<forall>ops w2 w3. run ops w1 = Inr w2 \<longrightarrow> rotate_rl rl w2 = Inr w3 \<longrightarrow>
            logFile (heap w3 ! p) = Some (length (os_files w2)) \<and>
            os_Stdout w3 = ToFile (logFile (heap w3 ! p))))) \<and>
   (CaptureStderr rl' v = Inr v1 \<longrightarrow>
      (\<exists>p. rl' = Some p \<and> p < length (heap v) \<and>
         os_Stderr v1 = ToFile (logFile (heap v ! p)) \<and>
         logFile (heap v1 ! p) = logFile (heap v ! p) \<and>
         captureStderr (heap v1 ! p) \<and>
         (\<forall>ops v2 v3. run ops v1 = Inr v2 \<longrightarrow> rotate_rl rl' v2 = Inr v3 \<longrightarrow>
            logFile (heap v3 ! p) = Some (length (os_files v2)) \<and>
            os_Stderr v3 = ToFile (logFile (heap v3 ! p)))))"
proof (intro conjI impI)
  assume a: "CaptureStdout rl w = Inr w1"
  from CaptureStdout_InrD[OF a] obtain p where p: "rl = Some p" "p < length (heap w)"
    and w1: "w1 = w\<lparr>heap := (heap w)[p := (heap w ! p)\<lparr>captureStdout := True\<rparr>],
                    os_Stdout := ToFile (logFile (heap w ! p))\<rparr>"
    by blast
  have 1: "p < length (heap w1)" "captureStdout (heap w1 ! p)"
    using p(2) by (simp_all add: w1)
  have "os_Stdout w1 = ToFile (logFile (heap w ! p)) \<and> logFile (heap w1 ! p) = logFile (heap w ! p)"
    using p(2) by (simp add: w1)
  then show "\<exists>p. rl = Some p \<and> p < length (heap w) \<and>
         os_Stdout w1 = ToFile (logFile (heap w ! p)) \<and>
         logFile (heap w1 ! p) = logFile (heap w ! p) \<and>
         captureStdout (heap w1 ! p) \<and>
         (\<forall>ops w2 w3. run ops w1 = Inr w2 \<longrightarrow> rotate_rl rl w2 = Inr w3 \<longrightarrow>
            logFile (heap w3 ! p) = Some (length (os_files w2)) \<and>
            os_Stdout w3 = ToFile (logFile (heap w3 ! p)))"
    using p 1 stdout_follows_rotation[OF 1] by blast
next
  assume a: "CaptureStderr rl' v = Inr v1"
  from CaptureStderr_InrD[OF a] obtain p where p: "rl' = Some p" "p < length (heap v)"
    and v1: "v1 = v\<lparr>heap := (heap v)[p := (heap v ! p)\<lparr>captureStderr := True\<rparr>],
                    os_Stderr := ToFile (logFile (heap v ! p))\<rparr>"
    by blast
  have 1: "p < length (heap v1)" "captureStderr (heap v1 ! p)"
    using p(2) by (simp_all add: v1)
  have "os_Stderr v1 = ToFile (logFile (heap v ! p)) \<and> logFile (heap v1 ! p) = logFile (heap v ! p)"
    using p(2) by (simp add: v1)
  then show "\<exists>p. rl' = Some p \<and> p < length (heap v) \<and>
         os_Stderr v1 = ToFile (logFile (heap v ! p)) \<and>
         logFile (heap v1 ! p) = logFile (heap v ! p) \<and>
         captureStderr (heap v1 ! p) \<and>
         (\<forall>ops v2 v3. run ops v1 = Inr v2 \<longrightarrow> rotate_rl rl' v2 = Inr v3 \<longrightarrow>
            logFile (heap v3 ! p) = Some (length (os_files v2)) \<and>
            os_Stderr v3 = ToFile (logFile (heap v3 ! p)))"
    using p 1 stderr_follows_rotation[OF 1] by blast
qed

theorem capture_redirects_now_and_on_every_rotation_witness:
  "CaptureStdout (Some 0) w_started = Inr w_capout \<and>
   os_Stdout w_capout = ToFile (Some 0) \<and>
   run [] w_capout = Inr w_capout \<and>
   rotate_rl (Some 0) w_capout = Inr w_capout_rot \<and>
   os_Stdout w_capout_rot = ToFile (Some 1) \<and>
   CaptureStderr (Some 0) w_started = Inr w_caperr \<and>
   os_Stderr w_caperr = ToFile (Some 0) \<and>
   run [] w_caperr = Inr w_caperr \<and>
   rotate_rl (Some 0) w_caperr = Inr w_caperr_rot \<and>
   os_Stderr w_caperr_rot = ToFile (Some 1)"
proof -
  have l: "logFile (heap w_started ! 0) = Some 0" "length (os_files w_capout) = 1"
    "length (os_files w_caperr) = 1"
    by (simp_all add: ex_defs)
  have r: "run [] w_capout = Inr w_capout" "run [] w_caperr = Inr w_caperr" by simp_all
  note t = capture_redirects_now_and_on_every_rotation[of "Some 0" w_started w_capout
      "Some 0" w_started w_caperr]
  have A: "os_Stdout w_capout = ToFile (logFile (heap w_started ! 0)) \<and>
      (\<forall>ops w2 w3. run ops w_capout = Inr w2 \<longrightarrow> rotate_rl (Some 0) w2 = Inr w3 \<longrightarrow>
            logFile (heap w3 ! 0) = Some (length (os_files w2)) \<and>
            os_Stdout w3 = ToFile (logFile (heap w3 ! 0)))"
    using t CaptureStdout_w_started by auto
  have B: "os_Stderr w_caperr = ToFile (logFile (heap w_started ! 0)) \<and>
      (\<forall>ops v2 v3. run ops w_caperr = Inr v2 \<longrightarrow> rotate_rl (Some 0) v2 = Inr v3 \<longrightarrow>
            logFile (heap v3 ! 0) = Some (length (os_files v2)) \<and>
            os_Stderr v3 = ToFile (logFile (heap v3 ! 0)))"
    using t CaptureStderr_w_started by auto
  have A2: "os_Stdout w_capout_rot = ToFile (Some 1)"
    using A[THEN conjunct2, rule_format, OF r(1) rotate_w_capout] l by simp
  have B2: "os_Stderr w_caperr_rot = ToFile (Some 1)"
    using B[THEN conjunct2, rule_format, OF r(2) rotate_w_caperr] l by simp
  have A1: "os_Stdout w_capout = ToFile (Some 0)" using A l by simp
  have B1: "os_Stderr w_caperr = ToFile (Some 0)" using B l by simp
  show ?thesis
    by (intro conjI CaptureStdout_w_started A1 r rotate_w_capout A2
        CaptureStderr_w_started B1 rotate_w_caperr B2)
qed

text \<open>
  \<^bold>\<open>C8\<close>. Every file the package has opened in a run, and every file
  \<open>mustOpenFileForAppend\<close> returns (in the earlier variants too), was opened with the flags
  \<open>O_CREATE\<close>, \<open>O_WRONLY\<close> and \<open>O_APPEND\<close> and with permission bits \<open>0644\<close>, which read
  \<open>rw-r--r--\<close>.
\<close>

theorem every_open_is_append_create_0644:
  "(run ops (init_world fs lo) = Inr w \<and> h < length (os_files w) \<longrightarrow>
      f_flag (os_files w ! h) = {O_CREATE, O_WRONLY, O_APPEND} \<and>
      f_perm (os_files w ! h) = perm_0644 \<and>
      mode_string (f_perm (os_files w ! h)) = ''rw-r--r--'') \<and>
   (mustOpenFileForAppend nm v = Inr (f, v') \<longrightarrow>
      f_flag (os_files v' ! f) = {O_CREATE, O_WRONLY, O_APPEND} \<and>
      f_perm (os_files v' ! f) = perm_0644 \<and>
      mode_string (f_perm (os_files v' ! f)) = ''rw-r--r--'') \<and>
   (mustOpenFileForAppend0 nm0 pv = Inr (f0, pv') \<longrightarrow>
      f_flag (os_files pv' ! f0) = {O_CREATE, O_WRONLY, O_APPEND} \<and>
      f_perm (os_files pv' ! f0) = perm_0644 \<and>
      mode_string (f_perm (os_files pv' ! f0)) = ''rw-r--r--'')"
proof (intro conjI impI)
  assume a: "run ops (init_world fs lo) = Inr w \<and> h < length (os_files w)"
  then have "flags_ok (store w)" using flags_ok_run store_init(1) by blast
  then have "f_flag (os_files w ! h) = {O_CREATE, O_WRONLY, O_APPEND} \<and>
             f_perm (os_files w ! h) = perm_0644"
    using a by (simp add: flags_ok_def store_def)
  then show "f_flag (os_files w ! h) = {O_CREATE, O_WRONLY, O_APPEND}"
    "f_perm (os_files w ! h) = perm_0644" "mode_string (f_perm (os_files w ! h)) = ''rw-r--r--''"
    by (simp_all add: mode_0644)
next
  assume "mustOpenFileForAppend nm v = Inr (f, v')"
  from mustOpen_new_file[OF this]
  show "f_flag (os_files v' ! f) = {O_CREATE, O_WRONLY, O_APPEND}"
    "f_perm (os_files v' ! f) = perm_0644" "mode_string (f_perm (os_files v' ! f)) = ''rw-r--r--''"
    by (simp_all add: new_file_def mode_0644)
next
  assume "mustOpenFileForAppend0 nm0 pv = Inr (f0, pv')"
  from mustOpen0_InrD[OF this]
  show "f_flag (os_files pv' ! f0) = {O_CREATE, O_WRONLY, O_APPEND}"
    "f_perm (os_files pv' ! f0) = perm_0644"
    "mode_string (f_perm (os_files pv' ! f0)) = ''rw-r--r--''"
    by (simp_all add: new_file_def mode_0644)
qed

theorem every_open_is_append_create_0644_witness:
  "run [OpWriteTo ''app.log'' [7]] (init_world (\<lambda>nm. None) (\<lambda>l. StdStream 2)) = Inr w_started \<and>
   0 < length (os_files w_started) \<and>
   f_flag (os_files w_started ! 0) = {O_CREATE, O_WRONLY, O_APPEND} \<and>
   f_perm (os_files w_started ! 0) = perm_0644 \<and>
   mode_string (f_perm (os_files w_started ! 0)) = ''rw-r--r--'' \<and>
   mustOpenFileForAppend ''app.log'' w_init =
     Inr (0, w_init\<lparr>os_files := [app_log], files := [''app.log'' \<mapsto> 0]\<rparr>) \<and>
   mode_string (f_perm app_log) = ''rw-r--r--'' \<and>
   mustOpenFileForAppend0 ''app.log'' p_init = Inr (0, p_init\<lparr>os_files := [app_log]\<rparr>)"
proof -
  have a: "run [OpWriteTo ''app.log'' [7]] (init_world (\<lambda>nm. None) (\<lambda>l. StdStream 2)) = Inr w_started"
    using run_WriteTo_w_init by (simp add: w_init_def)
  have b: "0 < length (os_files w_started)"
    by (simp add: w_started_def)
  from every_open_is_append_create_0644[of "[OpWriteTo ''app.log'' [7]]"
      "\<lambda>nm. None" "\<lambda>l. StdStream 2" w_started 0 "''app.log''" w_init 0
      "w_init\<lparr>os_files := [app_log], files := [''app.log'' \<mapsto> 0]\<rparr>"
      "''app.log''" p_init 0 "p_init\<lparr>os_files := [app_log]\<rparr>"]
    a b mustOpen_w_init mustOpen0_p_init
  show ?thesis by (simp add: mode_0644)
qed

text \<open>
  \<^bold>\<open>C9\<close>. A rotation changes one field of one controller: \<open>logFile\<close> becomes the file just
  opened. The controller's \<open>name\<close>, \<open>signal\<close>, \<open>loggers\<close>, \<open>captureStdout\<close>,
  \<open>captureStderr\<close> and \<open>quit\<close> are as before, the other controllers are untouched, and
  so are the listeners with their channels.
\<close>

theorem rotate_replaces_only_logFile:
  assumes "rotate_rl (Some p) w = Inr w'"
  shows "p < length (heap w) \<and> length (heap w') = length (heap w) \<and>
         logFile (heap w' ! p) = Some (length (os_files w)) \<and>
         name (heap w' ! p) = name (heap w ! p) \<and>
         signal (heap w' ! p) = signal (heap w ! p) \<and>
         loggers (heap w' ! p) = loggers (heap w ! p) \<and>
         captureStdout (heap w' ! p) = captureStdout (heap w ! p) \<and>
         captureStderr (heap w' ! p) = captureStderr (heap w ! p) \<and>
         quit (heap w' ! p) = quit (heap w ! p) \<and>
         heap w' = (heap w)[p := (heap w ! p)\<lparr>logFile := logFile (heap w' ! p)\<rparr>] \<and>
         listeners w' = listeners w"
proof -
  from rotate_InrD[OF assms] obtain w0 w2 where
    o: "mustOpenFileForAppend (name (heap w ! p)) w = Inr (length (os_files w), w0)"
    and s: "setOutput (Some p) (set_logFile p (Some (length (os_files w))) w0) = Inr w2"
    and w': "w' = file_Close (logFile (heap w ! p)) w2"
    by auto
  have l: "listeners w' = listeners w"
    using mustOpen_InrD[OF o] setOutput_proj(4)[OF s] w'
    by (simp add: file_Close_proj set_logFile_def)
  from rotate_heap[OF assms] l show ?thesis by simp
qed

theorem rotate_replaces_only_logFile_witness:
  "rotate_rl (Some 0) w_started = Inr w_rotated \<and>
   logFile (heap w_rotated ! 0) = Some 1 \<and>
   name (heap w_rotated ! 0) = name (heap w_started ! 0) \<and>
   loggers (heap w_rotated ! 0) = loggers (heap w_started ! 0) \<and>
   quit (heap w_rotated ! 0) = quit (heap w_started ! 0) \<and>
   listeners w_rotated = listeners w_started"
proof -
  have a: "rotate_rl (Some 0) w_started = Inr w_rotated"
    by (rule rotate_w_started)
  have "length (os_files w_started) = 1" by (simp add: w_started_def)
  with rotate_replaces_only_logFile[OF a] a show ?thesis by simp
qed



end
